theory Spec2Isabelle
  imports Main "HOL-Library.Multiset" "HOL-Library.Log_Nat"
begin

section \<open>Coordinates\<close>

text \<open>
  The Go source computes with \<^verbatim>\<open>float64\<close> coordinates. Every definition below is
  polymorphic in the coordinate type \<open>'a\<close> and uses only the operations the source uses:
  \<open>+\<close>, division by the literal \<open>2.0\<close>, and the comparisons. Nothing is assumed about
  them at the level of the definitions. The type \<open>f64\<close> of the last section of the model
  is the instance the program runs on: its \<open>+\<close> and \<open>/\<close> round to the nearest binary64
  value, as the hardware does, and its comparisons are a linear order.

  A theorem stated for \<open>'a :: {ord, plus, one, inverse}\<close> holds whatever the arithmetic
  does, rounding included; a theorem stated for \<open>'a :: linorder\<close> uses in addition that
  the comparisons are a linear order. Both kinds have \<open>f64\<close> as an instance. Theorems
  that depend on how \<^verbatim>\<open>float64\<close> rounds are stated for \<open>f64\<close> itself.
\<close>

definition two :: "'a::{one,plus}" where
  \<comment> \<open>the literal \<^verbatim>\<open>2.0\<close>\<close>
  "two = 1 + 1"

section \<open>Data model (quadtree.go, lines 20-65)\<close>

datatype 'a Point = Point (pX: 'a) (pY: 'a)

datatype 'a Rect = Rect (rX: 'a) (rY: 'a) (Width: 'a) (Height: 'a)

text \<open>An individual entry; \<open>'d\<close> stands for the payload of type \<^verbatim>\<open>interface{}\<close>.\<close>

datatype ('a, 'd) treeEntry = treeEntry (position: "'a Point") (data: 'd)

text \<open>
  A node is the Go struct as it is declared: an \<open>items\<close> slice that may be \<^verbatim>\<open>nil\<close>
  (\<open>None\<close>) and four child pointers that may each be \<^verbatim>\<open>nil\<close>. The struct itself does
  not force a node to be either a leaf or an internal node. Nodes are never shared (each is
  created by \<open>newNode\<close> and stored in one parent), so in-place mutation is modelled by
  returning the updated node.
\<close>

datatype ('a, 'd) node = Node
  (bounds: "'a Rect")
  (depth: int)
  (items: "('a, 'd) treeEntry list option")
  (ul: "('a, 'd) node option")
  (ur: "('a, 'd) node option")
  (ll: "('a, 'd) node option")
  (lr: "('a, 'd) node option")

record ('a, 'd) Quadtree =
  maxDepth :: int
  maxItemsPerNode :: int
  root :: "('a, 'd) node option"
  qsize :: int
  debugAssertions :: bool

text \<open>
  Go's \<^verbatim>\<open>int\<close> is taken to be 64 bits wide. \<open>wrap64\<close> is the value an \<^verbatim>\<open>int\<close>
  holds after an addition: the sum, wrapped around in two's complement. The counter
  \<open>size\<close> is incremented through it. The sum \<open>parent.depth + 1\<close> in \<open>newNode\<close> is
  written without it: a node is split only at a depth below \<open>maxDepth\<close>, which is itself
  an \<^verbatim>\<open>int\<close>, so that sum does not wrap.
\<close>

definition wrap64 :: "int \<Rightarrow> int" where
  "wrap64 i = (i + 2 ^ 63) mod 2 ^ 64 - 2 ^ 63"

definition quadrantNone :: int where "quadrantNone = - 1"
definition quadrantUpperLeft :: int where "quadrantUpperLeft = 0"
definition quadrantUpperRight :: int where "quadrantUpperRight = 1"
definition quadrantLowerLeft :: int where "quadrantLowerLeft = 2"
definition quadrantLowerRight :: int where "quadrantLowerRight = 3"

section \<open>Errors and panics\<close>

text \<open>
  \<open>go_error\<close> are the \<^verbatim>\<open>error\<close> values the API returns. A \<open>fault\<close> ends the
  program instead: the panic of a nil pointer dereference, and the exhaustion of the call
  stack by a recursion that does not stop. The recursion of \<open>addInternal\<close> is bounded by
  \<open>fuel\<close>, the number of stack frames it may still use.
\<close>

datatype go_error = ErrMaxDepth | ErrMaxItemsPerNode | ErrOutsideBounds

datatype fault = NilDereference | StackExhausted

fun bindF :: "fault + 'b \<Rightarrow> ('b \<Rightarrow> fault + 'c) \<Rightarrow> fault + 'c" where
  "bindF (Inl e) f = Inl e"
| "bindF (Inr x) f = f x"

fun deref :: "'b option \<Rightarrow> fault + 'b" where
  "deref None = Inl NilDereference"
| "deref (Some x) = Inr x"

fun foldF :: "('s \<Rightarrow> 'x \<Rightarrow> fault + 's) \<Rightarrow> 'x list \<Rightarrow> 's \<Rightarrow> fault + 's" where
  "foldF g [] s = Inr s"
| "foldF g (x # xs) s = bindF (g s x) (foldF g xs)"

definition slice :: "'x list option \<Rightarrow> 'x list" where
  \<comment> \<open>the elements of a slice: \<^verbatim>\<open>len\<close> and \<^verbatim>\<open>range\<close> treat \<^verbatim>\<open>nil\<close> as empty\<close>
  "slice s = (case s of None \<Rightarrow> [] | Some xs \<Rightarrow> xs)"

lemma bindF_cong [fundef_cong]:
  "m = m' \<Longrightarrow> (\<And>x. m' = Inr x \<Longrightarrow> f x = f' x) \<Longrightarrow> bindF m f = bindF m' f'"
  by (cases m') auto

lemma deref_eq_Inr [simp]: "deref m = Inr x \<longleftrightarrow> m = Some x"
  by (cases m) auto

lemma deref_eq_Inl [simp]: "deref m = Inl e \<longleftrightarrow> m = None \<and> e = NilDereference"
  by (cases m) auto

section \<open>Geometry (quadtree.go, lines 191-240)\<close>

definition Contains :: "('a::{ord,plus}) Rect \<Rightarrow> 'a Point \<Rightarrow> bool" where
  "Contains r point \<longleftrightarrow>
     pX point \<ge> rX r \<and> pY point \<ge> rY r \<and>
     pX point < rX r + Width r \<and> pY point < rY r + Height r"

definition overlaps :: "('a::{ord,plus}) Rect \<Rightarrow> 'a Rect \<Rightarrow> bool" where
  "overlaps r1 r2 \<longleftrightarrow>
     rX r1 < rX r2 + Width r2 \<and> rX r1 + Width r1 > rX r2 \<and>
     rY r1 + Height r1 > rY r2 \<and> rY r1 < rY r2 + Height r2"

definition quadrants :: "('a::{plus,one,inverse}) Rect \<Rightarrow> 'a Rect \<times> 'a Rect \<times> 'a Rect \<times> 'a Rect" where
  \<comment> \<open>the result is (ul, ur, ll, lr), as the source's named results\<close>
  "quadrants r =
     (let w = Width r / two; h = Height r / two
      in (Rect (rX r) (rY r + h) w h,
          Rect (rX r + w) (rY r + h) w h,
          Rect (rX r) (rY r) w h,
          Rect (rX r + w) (rY r) w h))"

definition whichQuadrant :: "('a::{ord,plus,one,inverse}) Rect \<Rightarrow> 'a Point \<Rightarrow> int" where
  "whichQuadrant r p =
     (if \<not> Contains r p then quadrantNone
      else let midX = rX r + Width r / two; midY = rY r + Height r / two
           in if pX p < midX
              then (if pY p < midY then quadrantLowerLeft else quadrantUpperLeft)
              else (if pY p < midY then quadrantLowerRight else quadrantUpperRight))"

section \<open>Tree operations (quadtree.go, lines 67-189)\<close>

definition NewQuadtree :: "'a Rect \<Rightarrow> int \<Rightarrow> int \<Rightarrow> go_error + ('a, 'd) Quadtree" where
  "NewQuadtree b md mi =
     (if md \<le> 0 then Inl ErrMaxDepth
      else if mi \<le> 0 then Inl ErrMaxItemsPerNode
      else Inr \<lparr>maxDepth = md, maxItemsPerNode = mi,
                root = Some (Node b 0 (Some []) None None None None),
                qsize = 0, debugAssertions = False\<rparr>)"

definition Size :: "('a, 'd) Quadtree \<Rightarrow> int" where
  "Size qt = qsize qt"

text \<open>
  The consumer is a Go closure: it returns a \<^verbatim>\<open>bool\<close> and may change captured
  variables. Its captured state is threaded through as \<open>'s\<close>. \<open>queryInternal\<close> calls it
  and drops the returned \<^verbatim>\<open>bool\<close> (line 116, under the comment
  \<^verbatim>\<open>TODO: handle the return value and exit\<close>).
\<close>

fun queryInternal :: "('a::{ord,plus}, 'd) node \<Rightarrow> 'a Rect \<Rightarrow>
    (('a, 'd) treeEntry \<Rightarrow> 's \<Rightarrow> bool \<times> 's) \<Rightarrow> 's \<Rightarrow> fault + 's" where
  "queryInternal (Node nb d its nul nur nll nlr) b consumer s =
     (if overlaps nb b then
        (case its of
           None \<Rightarrow>
             bindF (deref nul) (\<lambda>c1. bindF (queryInternal c1 b consumer s) (\<lambda>s1.
             bindF (deref nur) (\<lambda>c2. bindF (queryInternal c2 b consumer s1) (\<lambda>s2.
             bindF (deref nll) (\<lambda>c3. bindF (queryInternal c3 b consumer s2) (\<lambda>s3.
             bindF (deref nlr) (\<lambda>c4. queryInternal c4 b consumer s3)))))))
         | Some es \<Rightarrow>
             Inr (fold (\<lambda>e s. if Contains b (position e) then snd (consumer e s) else s) es s))
      else Inr s)"

definition Query :: "('a::{ord,plus}, 'd) Quadtree \<Rightarrow> 'a Rect \<Rightarrow> fault + 'd list" where
  "Query qt b =
     bindF (deref (root qt)) (\<lambda>r.
       queryInternal r b (\<lambda>item its. (True, its @ [data item])) [])"

definition newNode :: "('a, 'd) node \<Rightarrow> 'a Rect \<Rightarrow> ('a, 'd) node" where
  "newNode parent b = Node b (depth parent + 1) (Some []) None None None None"

fun addInternal :: "nat \<Rightarrow> ('a::{ord,plus,one,inverse}, 'd) Quadtree \<Rightarrow> ('a, 'd) node \<Rightarrow>
    ('a, 'd) treeEntry \<Rightarrow> fault + ('a, 'd) node" where
  "addInternal 0 qt n item = Inl StackExhausted"
| "addInternal (Suc fuel) qt (Node b d its nul nur nll nlr) item =
     (let quadrant = whichQuadrant b (position item) in
      if quadrant = quadrantNone then Inr (Node b d its nul nur nll nlr)
      else if its \<noteq> None \<and> d \<ge> maxDepth qt then
        Inr (Node b d (Some (slice its @ [item])) nul nur nll nlr)
      else if int (length (slice its)) \<ge> maxItemsPerNode qt then
        (case quadrants b of (qul, qur, qll, qlr) \<Rightarrow>
           let parent = Node b d its nul nur nll nlr;
               split = Node b d None
                         (Some (newNode parent qul)) (Some (newNode parent qur))
                         (Some (newNode parent qll)) (Some (newNode parent qlr))
           in bindF (foldF (\<lambda>n i. addInternal fuel qt n i) (slice its) split)
                    (\<lambda>n'. addInternal fuel qt n' item))
      else if its \<noteq> None then
        Inr (Node b d (Some (slice its @ [item])) nul nur nll nlr)
      else if quadrant = quadrantUpperLeft then
        bindF (deref nul) (\<lambda>c. bindF (addInternal fuel qt c item) (\<lambda>c'.
          Inr (Node b d its (Some c') nur nll nlr)))
      else if quadrant = quadrantUpperRight then
        bindF (deref nur) (\<lambda>c. bindF (addInternal fuel qt c item) (\<lambda>c'.
          Inr (Node b d its nul (Some c') nll nlr)))
      else if quadrant = quadrantLowerLeft then
        bindF (deref nll) (\<lambda>c. bindF (addInternal fuel qt c item) (\<lambda>c'.
          Inr (Node b d its nul nur (Some c') nlr)))
      else if quadrant = quadrantLowerRight then
        bindF (deref nlr) (\<lambda>c. bindF (addInternal fuel qt c item) (\<lambda>c'.
          Inr (Node b d its nul nur nll (Some c'))))
      else Inr (Node b d its nul nur nll nlr))"

text \<open>
  \<open>Add\<close> returns the tree after the call together with the returned \<^verbatim>\<open>error\<close>
  (\<open>None\<close> for \<^verbatim>\<open>nil\<close>).
\<close>

definition Add :: "nat \<Rightarrow> ('a::{ord,plus,one,inverse}, 'd) Quadtree \<Rightarrow> 'd \<Rightarrow> 'a Point \<Rightarrow>
    fault + (('a, 'd) Quadtree \<times> go_error option)" where
  "Add fuel qt dat pos =
     bindF (deref (root qt)) (\<lambda>r.
       if \<not> Contains (bounds r) pos then Inr (qt, Some ErrOutsideBounds)
       else bindF (addInternal fuel qt r (treeEntry pos dat)) (\<lambda>r'.
              Inr (qt\<lparr>root := Some r', qsize := wrap64 (qsize qt + 1)\<rparr>, None)))"

section \<open>Client loop\<close>

text \<open>
  The tests call \<^verbatim>\<open>qt.Add\<close> in a loop (\<^verbatim>\<open>TestQuery_stressTest_returnsAllAddedPoints\<close>)
  and keep going whatever it returns. \<open>addAll\<close> is that loop; it collects the returned
  errors in call order.
\<close>

fun addAll :: "nat \<Rightarrow> ('a::{ord,plus,one,inverse}, 'd) Quadtree \<Rightarrow> ('d \<times> 'a Point) list \<Rightarrow>
    fault + (('a, 'd) Quadtree \<times> go_error option list)" where
  "addAll fuel qt [] = Inr (qt, [])"
| "addAll fuel qt (c # cs) =
     bindF (Add fuel qt (fst c) (snd c)) (\<lambda>r.
       bindF (addAll fuel (fst r) cs) (\<lambda>r'. Inr (fst r', snd r # snd r')))"

section \<open>A model of binary64 arithmetic\<close>

text \<open>
  A finite \<^verbatim>\<open>float64\<close> is given by its exact rational value. \<open>round64\<close> rounds a
  rational to the nearest number with a 53-bit significand, ties to the even significand
  (the IEEE 754 default that Go uses). The exponent is not bounded: overflow to infinity,
  subnormal numbers and NaN are not modelled, and no input evaluated below comes near them.
  Sum and quotient are the exact result, rounded once.
\<close>

definition ilog2 :: "rat \<Rightarrow> int" where
  \<comment> \<open>for \<open>a > 0\<close>: the \<open>e\<close> with \<open>2 ^ e \<le> a < 2 ^ (e + 1)\<close>\<close>
  "ilog2 a = (let (n, d) = quotient_of a; k = bitlen n - bitlen d
              in if 2 powi k \<le> a then k else k - 1)"

definition nearest_even :: "rat \<Rightarrow> int" where
  "nearest_even t =
     (let f = \<lfloor>t\<rfloor>; r = t - of_int f
      in if r < 1 / 2 then f else if 1 / 2 < r then f + 1
         else if even f then f else f + 1)"

definition round64 :: "rat \<Rightarrow> rat" where
  "round64 q =
     (if q = 0 then 0
      else let u = 2 powi (ilog2 \<bar>q\<bar> - 52)
           in sgn q * of_int (nearest_even (\<bar>q\<bar> / u)) * u)"

datatype f64 = F64 (val: rat)

instantiation f64 :: "{zero,one,plus,inverse,linorder}"
begin

definition less_eq_f64 :: "f64 \<Rightarrow> f64 \<Rightarrow> bool" where
  "less_eq_f64 a b \<longleftrightarrow> val a \<le> val b"

definition less_f64 :: "f64 \<Rightarrow> f64 \<Rightarrow> bool" where
  "less_f64 a b \<longleftrightarrow> val a < val b"

definition plus_f64 :: "f64 \<Rightarrow> f64 \<Rightarrow> f64" where
  "plus_f64 a b = F64 (round64 (val a + val b))"

definition zero_f64 :: f64 where
  "zero_f64 = F64 0"

definition one_f64 :: f64 where
  "one_f64 = F64 1"

definition divide_f64 :: "f64 \<Rightarrow> f64 \<Rightarrow> f64" where
  "divide_f64 a b = F64 (round64 (val a / val b))"

definition inverse_f64 :: "f64 \<Rightarrow> f64" where
  "inverse_f64 a = F64 (round64 (1 / val a))"

instance
proof
  fix x y z :: f64
  show "x < y \<longleftrightarrow> x \<le> y \<and> \<not> y \<le> x"
    by (auto simp: less_f64_def less_eq_f64_def)
  show "x \<le> x"
    by (simp add: less_eq_f64_def)
  show "x \<le> y \<Longrightarrow> y \<le> z \<Longrightarrow> x \<le> z"
    by (simp add: less_eq_f64_def)
  show "x \<le> y \<Longrightarrow> y \<le> x \<Longrightarrow> x = y"
    by (simp add: less_eq_f64_def f64.expand)
  show "x \<le> y \<or> y \<le> x"
    by (auto simp: less_eq_f64_def)
qed

end

text \<open>
  Not every rational is a \<^verbatim>\<open>float64\<close>. \<open>finite64 x\<close> says that \<open>x\<close> is one: rounding
  leaves it as it is. Every value a Go program holds satisfies it, and so does every result
  of \<open>+\<close> and \<open>/\<close> evaluated below. \<open>lit q\<close> is the value of the decimal literal \<open>q\<close>, the
  \<^verbatim>\<open>float64\<close> nearest to it.
\<close>

definition finite64 :: "f64 \<Rightarrow> bool" where
  "finite64 x \<longleftrightarrow> round64 (val x) = val x"

definition lit :: "rat \<Rightarrow> f64" where
  "lit q = F64 (round64 q)"

text \<open>The smallest step above 1: \<open>2\<^sup>-\<^sup>5\<^sup>2 = 2.220446049250313e-16\<close>.\<close>

definition eps64 :: f64 where
  "eps64 = F64 (1 / 2 ^ 52)"

section \<open>Properties of trees\<close>

text \<open>
  The predicates of this section are not in the source. They state, as functions that can be
  evaluated, the properties of nodes and trees that the claims are about.

  \<open>entries n\<close> are the entries stored in the subtree of \<open>n\<close>, in the order in which
  \<open>queryInternal\<close> visits them; \<open>nodes n\<close> are the nodes of the subtree.
\<close>

fun entries :: "('a, 'd) node \<Rightarrow> ('a, 'd) treeEntry list" where
  "entries (Node b d its nul nur nll nlr) =
     (case its of
        Some es \<Rightarrow> es
      | None \<Rightarrow>
          (case nul of None \<Rightarrow> [] | Some c \<Rightarrow> entries c) @
          (case nur of None \<Rightarrow> [] | Some c \<Rightarrow> entries c) @
          (case nll of None \<Rightarrow> [] | Some c \<Rightarrow> entries c) @
          (case nlr of None \<Rightarrow> [] | Some c \<Rightarrow> entries c))"

fun nodes :: "('a, 'd) node \<Rightarrow> ('a, 'd) node list" where
  "nodes (Node b d its nul nur nll nlr) =
     Node b d its nul nur nll nlr #
       (case nul of None \<Rightarrow> [] | Some c \<Rightarrow> nodes c) @
       (case nur of None \<Rightarrow> [] | Some c \<Rightarrow> nodes c) @
       (case nll of None \<Rightarrow> [] | Some c \<Rightarrow> nodes c) @
       (case nlr of None \<Rightarrow> [] | Some c \<Rightarrow> nodes c)"

text \<open>
  A node is a leaf when its \<open>items\<close> slice is not \<^verbatim>\<open>nil\<close> and its four child
  pointers are; it is internal when \<open>items\<close> is \<^verbatim>\<open>nil\<close> and the four child pointers
  are set. \<open>leaf_or_internal n\<close> says that every node of the subtree of \<open>n\<close> is one or the
  other.
\<close>

fun leaf_or_internal :: "('a, 'd) node \<Rightarrow> bool" where
  "leaf_or_internal (Node b d its nul nur nll nlr) =
     (case its of
        Some es \<Rightarrow> nul = None \<and> nur = None \<and> nll = None \<and> nlr = None
      | None \<Rightarrow>
          (case nul of None \<Rightarrow> False | Some c \<Rightarrow> leaf_or_internal c) \<and>
          (case nur of None \<Rightarrow> False | Some c \<Rightarrow> leaf_or_internal c) \<and>
          (case nll of None \<Rightarrow> False | Some c \<Rightarrow> leaf_or_internal c) \<and>
          (case nlr of None \<Rightarrow> False | Some c \<Rightarrow> leaf_or_internal c))"

text \<open>
  \<open>stays_split n n'\<close> compares a subtree before and after an operation: wherever the
  subtree before has an internal node, the subtree after has an internal node in the same
  place. \<open>kept\<close> is the same comparison for the two values of a child pointer.
\<close>

fun stays_split :: "('a, 'd) node \<Rightarrow> ('a, 'd) node \<Rightarrow> bool" where
  "stays_split (Node b d its a1 a2 a3 a4) (Node b' d' its' c1 c2 c3 c4) =
     (its = None \<longrightarrow>
        its' = None \<and>
        (case a1 of None \<Rightarrow> True | Some x \<Rightarrow> (case c1 of None \<Rightarrow> False | Some y \<Rightarrow> stays_split x y)) \<and>
        (case a2 of None \<Rightarrow> True | Some x \<Rightarrow> (case c2 of None \<Rightarrow> False | Some y \<Rightarrow> stays_split x y)) \<and>
        (case a3 of None \<Rightarrow> True | Some x \<Rightarrow> (case c3 of None \<Rightarrow> False | Some y \<Rightarrow> stays_split x y)) \<and>
        (case a4 of None \<Rightarrow> True | Some x \<Rightarrow> (case c4 of None \<Rightarrow> False | Some y \<Rightarrow> stays_split x y)))"

definition kept :: "('a, 'd) node option \<Rightarrow> ('a, 'd) node option \<Rightarrow> bool" where
  "kept a c =
     (case a of None \<Rightarrow> True
      | Some x \<Rightarrow> (case c of None \<Rightarrow> False | Some y \<Rightarrow> stays_split x y))"

text \<open>
  \<open>node_ok md mi n\<close> is the invariant of \<open>addInternal\<close> for a tree with
  \<open>maxDepth = md\<close> and \<open>maxItemsPerNode = mi\<close>: every node is a leaf or internal; no
  node is deeper than \<open>md\<close>; a leaf above the depth \<open>md\<close> holds at most \<open>mi\<close> entries; the
  children of an internal node are one level deeper and have the bounds that \<open>quadrants\<close>
  computes from the node's bounds; and the position of every entry below a node passes the
  \<open>Contains\<close> test of that node. \<open>tree_ok\<close> says this of the root of a tree, at depth 0
  and with bounds \<open>b\<close>, and that the counter \<open>size\<close> holds an \<^verbatim>\<open>int\<close>.
\<close>

fun node_ok :: "int \<Rightarrow> int \<Rightarrow> ('a::{ord,plus,one,inverse}, 'd) node \<Rightarrow> bool" where
  "node_ok md mi (Node b d its nul nur nll nlr) =
     (case its of
        Some es \<Rightarrow>
          nul = None \<and> nur = None \<and> nll = None \<and> nlr = None \<and> d \<le> md \<and>
          (d < md \<longrightarrow> int (length es) \<le> mi) \<and>
          list_all (\<lambda>e. Contains b (position e)) es
      | None \<Rightarrow>
          d < md \<and>
          (case nul of None \<Rightarrow> False | Some c \<Rightarrow>
             bounds c = fst (quadrants b) \<and> depth c = d + 1 \<and> node_ok md mi c \<and>
             list_all (\<lambda>e. Contains b (position e)) (entries c)) \<and>
          (case nur of None \<Rightarrow> False | Some c \<Rightarrow>
             bounds c = fst (snd (quadrants b)) \<and> depth c = d + 1 \<and> node_ok md mi c \<and>
             list_all (\<lambda>e. Contains b (position e)) (entries c)) \<and>
          (case nll of None \<Rightarrow> False | Some c \<Rightarrow>
             bounds c = fst (snd (snd (quadrants b))) \<and> depth c = d + 1 \<and> node_ok md mi c \<and>
             list_all (\<lambda>e. Contains b (position e)) (entries c)) \<and>
          (case nlr of None \<Rightarrow> False | Some c \<Rightarrow>
             bounds c = snd (snd (snd (quadrants b))) \<and> depth c = d + 1 \<and> node_ok md mi c \<and>
             list_all (\<lambda>e. Contains b (position e)) (entries c)))"

definition tree_ok :: "('a::{ord,plus,one,inverse}) Rect \<Rightarrow> int \<Rightarrow> int \<Rightarrow> ('a, 'd) Quadtree \<Rightarrow> bool" where
  "tree_ok b md mi qt \<longleftrightarrow>
     maxDepth qt = md \<and> maxItemsPerNode qt = mi \<and> 1 \<le> mi \<and>
     wrap64 (qsize qt) = qsize qt \<and>
     (case root qt of None \<Rightarrow> False
      | Some r \<Rightarrow> bounds r = b \<and> depth r = 0 \<and> node_ok md mi r)"

text \<open>
  \<open>quadrant_children n\<close>: the bounds of the children of an internal node \<open>n\<close> are the
  four rectangles that \<open>quadrants\<close> returns for the bounds of \<open>n\<close>.
\<close>

definition quadrant_children :: "('a::{plus,one,inverse}, 'd) node \<Rightarrow> bool" where
  "quadrant_children n \<longleftrightarrow>
     (case items n of
        Some es \<Rightarrow> True
      | None \<Rightarrow>
          (map_option bounds (ul n), map_option bounds (ur n),
           map_option bounds (ll n), map_option bounds (lr n)) =
          (case quadrants (bounds n) of (qul, qur, qll, qlr) \<Rightarrow>
             (Some qul, Some qur, Some qll, Some qlr)))"

text \<open>
  \<open>covers q b\<close>: the rectangle \<open>q\<close> starts at or before \<open>b\<close> and ends at or after it on
  both axes, the ends being computed as \<open>Contains\<close> computes them.
\<close>

definition covers :: "('a::{ord,plus}) Rect \<Rightarrow> 'a Rect \<Rightarrow> bool" where
  "covers q b \<longleftrightarrow>
     rX q \<le> rX b \<and> rY q \<le> rY b \<and>
     rX b + Width b \<le> rX q + Width q \<and> rY b + Height b \<le> rY q + Height q"

text \<open>
  For a list of \<open>Add\<close> calls on a tree with bounds \<open>b\<close>: \<open>accepted b cs\<close> are the calls
  whose position passes the test of \<open>Add\<close>, and \<open>verdicts b cs\<close> are the errors the calls
  are expected to return, in call order.
\<close>

definition accepted :: "('a::{ord,plus}) Rect \<Rightarrow> ('d \<times> 'a Point) list \<Rightarrow> ('d \<times> 'a Point) list" where
  "accepted b cs = filter (\<lambda>c. Contains b (snd c)) cs"

definition verdicts :: "('a::{ord,plus}) Rect \<Rightarrow> ('d \<times> 'a Point) list \<Rightarrow> go_error option list" where
  "verdicts b cs = map (\<lambda>c. if Contains b (snd c) then None else Some ErrOutsideBounds) cs"

text \<open>
  \<open>addInternal\<close> on a node at depth \<open>d\<close> uses at most \<open>frames md n\<close> nested calls: one
  per level down to \<open>md\<close>, and one more per level for the call that a split makes on the
  node it has just split. \<open>post\<close> is what a call that returns has established, and
  \<open>outcome\<close> adds that a call only runs out of stack when it was given fewer frames.
\<close>

definition frames :: "int \<Rightarrow> ('a, 'd) node \<Rightarrow> nat" where
  "frames md n = (case items n of Some es \<Rightarrow> 2 * nat (md - depth n) + 1
                                | None \<Rightarrow> 2 * nat (md - depth n))"

definition post :: "int \<Rightarrow> int \<Rightarrow> ('a::{ord,plus,one,inverse}, 'd) node \<Rightarrow> ('a, 'd) treeEntry \<Rightarrow>
    ('a, 'd) node \<Rightarrow> bool" where
  "post md mi n item n' \<longleftrightarrow>
     node_ok md mi n' \<and> bounds n' = bounds n \<and> depth n' = depth n \<and>
     (items n = None \<longrightarrow> items n' = None) \<and> stays_split n n' \<and>
     mset (entries n') \<subseteq># add_mset item (mset (entries n))"

definition outcome :: "int \<Rightarrow> int \<Rightarrow> nat \<Rightarrow> ('a::{ord,plus,one,inverse}, 'd) node \<Rightarrow>
    ('a, 'd) treeEntry \<Rightarrow> fault + ('a, 'd) node \<Rightarrow> bool" where
  "outcome md mi fuel n item r \<longleftrightarrow>
     (case r of Inr n' \<Rightarrow> post md mi n item n'
              | Inl e \<Rightarrow> e = StackExhausted \<and> fuel < frames md n)"

section \<open>Inputs evaluated below\<close>

text \<open>
  The concrete inputs at which the code is evaluated below, and the trees the code builds
  from them. All of them are \<open>f64\<close> values.

  The first input is a tree whose bounds are one unit in the last place wide: the square
  from 1 to the next \<^verbatim>\<open>float64\<close> above 1, with \<open>maxDepth = 1\<close> and \<open>maxItemsPerNode = 1\<close>,
  and two \<open>Add\<close> calls at the corner \<open>(1, 1)\<close>. In Go the bounds are
  \<^verbatim>\<open>Rect{1, 1, 2.220446049250313e-16, 2.220446049250313e-16}\<close>.
\<close>

definition half_eps :: f64 where
  "half_eps = F64 (1 / 2 ^ 53)"

definition corner_adds :: "(nat \<times> f64 Point) list" where
  "corner_adds = [(1, Point 1 1), (2, Point 1 1)]"

definition ulp_bounds :: "f64 Rect" where
  "ulp_bounds = Rect 1 1 eps64 eps64"

definition ulp_new :: "(f64, nat) Quadtree" where
  "ulp_new = \<lparr>maxDepth = 1, maxItemsPerNode = 1,
               root = Some (Node ulp_bounds 0 (Some []) None None None None),
               qsize = 0, debugAssertions = False\<rparr>"

definition ulp_root :: "(f64, nat) node" where
  "ulp_root = Node ulp_bounds 0 None
     (Some (Node (Rect 1 1 half_eps half_eps) 1 (Some []) None None None None))
     (Some (Node (Rect 1 1 half_eps half_eps) 1 (Some []) None None None None))
     (Some (Node (Rect 1 1 half_eps half_eps) 1 (Some []) None None None None))
     (Some (Node (Rect 1 1 half_eps half_eps) 1 (Some []) None None None None))"

definition ulp_tree :: "(f64, nat) Quadtree" where
  "ulp_tree = \<lparr>maxDepth = 1, maxItemsPerNode = 1, root = Some ulp_root,
                qsize = 2, debugAssertions = False\<rparr>"

text \<open>
  The second input has bounds three units in the last place wide, and the same two calls.
  \<open>wide_ur\<close> is the upper right child of the root after the split, and \<open>wide_point\<close> is
  the point with \<open>x = 1 + 3 / 2\<^sup>5\<^sup>2\<close> and \<open>y = 1 + 2 / 2\<^sup>5\<^sup>2\<close>.
\<close>

definition wide_bounds :: "f64 Rect" where
  "wide_bounds = Rect 1 1 (F64 (3 / 2 ^ 52)) (F64 (3 / 2 ^ 52))"

definition wide_new :: "(f64, nat) Quadtree" where
  "wide_new = \<lparr>maxDepth = 1, maxItemsPerNode = 1,
                root = Some (Node wide_bounds 0 (Some []) None None None None),
                qsize = 0, debugAssertions = False\<rparr>"

definition wide_ur :: "(f64, nat) node" where
  "wide_ur = Node (Rect (F64 (1 + 2 / 2 ^ 52)) (F64 (1 + 2 / 2 ^ 52)) (F64 (3 / 2 ^ 53)) (F64 (3 / 2 ^ 53)))
               1 (Some []) None None None None"

definition wide_root :: "(f64, nat) node" where
  "wide_root = Node wide_bounds 0 None
     (Some (Node (Rect 1 (F64 (1 + 2 / 2 ^ 52)) (F64 (3 / 2 ^ 53)) (F64 (3 / 2 ^ 53)))
              1 (Some []) None None None None))
     (Some wide_ur)
     (Some (Node (Rect 1 1 (F64 (3 / 2 ^ 53)) (F64 (3 / 2 ^ 53)))
              1 (Some [treeEntry (Point 1 1) 1, treeEntry (Point 1 1) 2]) None None None None))
     (Some (Node (Rect (F64 (1 + 2 / 2 ^ 52)) 1 (F64 (3 / 2 ^ 53)) (F64 (3 / 2 ^ 53)))
              1 (Some []) None None None None))"

definition wide_tree :: "(f64, nat) Quadtree" where
  "wide_tree = \<lparr>maxDepth = 1, maxItemsPerNode = 1, root = Some wide_root,
                 qsize = 2, debugAssertions = False\<rparr>"

definition wide_point :: "f64 Point" where
  "wide_point = Point (F64 (1 + 3 / 2 ^ 52)) (F64 (1 + 2 / 2 ^ 52))"

text \<open>
  The third input is the tree of the tests, with bounds \<^verbatim>\<open>Rect{0, 0, 5, 5}\<close>, here with
  \<open>maxDepth = 1\<close> and \<open>maxItemsPerNode = 1\<close>: two calls at \<open>(1, 1)\<close> and, between them, a
  call at \<open>(5, 1)\<close>, which is on the right edge and so outside. \<open>five_tree'\<close> is the tree
  after one more call at \<open>(1, 1)\<close>.
\<close>

definition five_bounds :: "f64 Rect" where
  "five_bounds = Rect 0 0 (F64 5) (F64 5)"

definition five_new :: "(f64, nat) Quadtree" where
  "five_new = \<lparr>maxDepth = 1, maxItemsPerNode = 1,
                root = Some (Node five_bounds 0 (Some []) None None None None),
                qsize = 0, debugAssertions = False\<rparr>"

definition five_adds :: "(nat \<times> f64 Point) list" where
  "five_adds = [(1, Point 1 1), (9, Point (F64 5) 1), (2, Point 1 1)]"

definition five_node :: "(nat \<times> f64 Point) list \<Rightarrow> (f64, nat) node" where
  "five_node held = Node five_bounds 0 None
     (Some (Node (Rect 0 (F64 (5 / 2)) (F64 (5 / 2)) (F64 (5 / 2))) 1 (Some []) None None None None))
     (Some (Node (Rect (F64 (5 / 2)) (F64 (5 / 2)) (F64 (5 / 2)) (F64 (5 / 2))) 1 (Some []) None None None None))
     (Some (Node (Rect 0 0 (F64 (5 / 2)) (F64 (5 / 2))) 1
              (Some (map (\<lambda>c. treeEntry (snd c) (fst c)) held)) None None None None))
     (Some (Node (Rect (F64 (5 / 2)) 0 (F64 (5 / 2)) (F64 (5 / 2))) 1 (Some []) None None None None))"

definition five_root :: "(f64, nat) node" where
  "five_root = five_node [(1, Point 1 1), (2, Point 1 1)]"

definition five_tree :: "(f64, nat) Quadtree" where
  "five_tree = \<lparr>maxDepth = 1, maxItemsPerNode = 1, root = Some five_root,
                 qsize = 2, debugAssertions = False\<rparr>"

definition five_root' :: "(f64, nat) node" where
  "five_root' = five_node [(1, Point 1 1), (2, Point 1 1), (3, Point 1 1)]"

definition five_tree' :: "(f64, nat) Quadtree" where
  "five_tree' = \<lparr>maxDepth = 1, maxItemsPerNode = 1, root = Some five_root',
                  qsize = 3, debugAssertions = False\<rparr>"

text \<open>
  The last input is the one of \<^verbatim>\<open>TestQueryIterative_stopsWhenReturnFalse\<close>: bounds
  \<^verbatim>\<open>Rect{-1, -1, 1, 1}\<close>, \<open>maxDepth = 2\<close>, \<open>maxItemsPerNode = 2\<close>, and the four points of
  the test. \<open>count_then_stop\<close> is the closure of the test: it counts its calls in the
  captured variable and returns \<^verbatim>\<open>false\<close> from the second call on.
\<close>

definition test_bounds :: "f64 Rect" where
  "test_bounds = Rect (lit (- 1)) (lit (- 1)) (lit 1) (lit 1)"

definition test_new :: "(f64, nat) Quadtree" where
  "test_new = \<lparr>maxDepth = 2, maxItemsPerNode = 2,
                root = Some (Node test_bounds 0 (Some []) None None None None),
                qsize = 0, debugAssertions = False\<rparr>"

definition test_adds :: "(nat \<times> f64 Point) list" where
  "test_adds =
     [(1, Point (lit (- (1 / 2))) (lit (- (1 / 10)))),
      (2, Point (lit (- (1 / 10))) (lit (- (3 / 10)))),
      (3, Point (lit (- (7 / 10))) (lit (- (7 / 10)))),
      (4, Point (lit (- (3 / 10))) (lit (- (9 / 10))))]"

definition test_root :: "(f64, nat) node" where
  "test_root = Node test_bounds 0 None
     (Some (Node (Rect (lit (- 1)) (lit (- (1 / 2))) (lit (1 / 2)) (lit (1 / 2))) 1
              (Some []) None None None None))
     (Some (Node (Rect (lit (- (1 / 2))) (lit (- (1 / 2))) (lit (1 / 2)) (lit (1 / 2))) 1
              (Some [treeEntry (Point (lit (- (1 / 2))) (lit (- (1 / 10)))) 1,
                     treeEntry (Point (lit (- (1 / 10))) (lit (- (3 / 10)))) 2])
              None None None None))
     (Some (Node (Rect (lit (- 1)) (lit (- 1)) (lit (1 / 2)) (lit (1 / 2))) 1
              (Some [treeEntry (Point (lit (- (7 / 10))) (lit (- (7 / 10)))) 3])
              None None None None))
     (Some (Node (Rect (lit (- (1 / 2))) (lit (- 1)) (lit (1 / 2)) (lit (1 / 2))) 1
              (Some [treeEntry (Point (lit (- (3 / 10))) (lit (- (9 / 10)))) 4])
              None None None None))"

definition test_tree :: "(f64, nat) Quadtree" where
  "test_tree = \<lparr>maxDepth = 2, maxItemsPerNode = 2, root = Some test_root,
                 qsize = 4, debugAssertions = False\<rparr>"

definition count_then_stop :: "(f64, nat) treeEntry \<Rightarrow> int \<Rightarrow> bool \<times> int" where
  "count_then_stop e calls = (\<not> calls + 1 > 1, calls + 1)"

section \<open>The invariant of insertion\<close>

lemma stays_split_refl: "stays_split n n"
  by (induction n) (simp split: option.split)

lemma whichQuadrant_None: "whichQuadrant r p = quadrantNone \<longleftrightarrow> \<not> Contains r p"
  by (simp add: whichQuadrant_def Let_def quadrantNone_def quadrantLowerLeft_def
      quadrantUpperLeft_def quadrantLowerRight_def quadrantUpperRight_def)

lemma frames_pos: "node_ok md mi n \<Longrightarrow> 0 < frames md n"
  by (cases n) (simp add: frames_def split: option.splits)

lemmas quadrant_defs = quadrantNone_def quadrantUpperLeft_def quadrantUpperRight_def
  quadrantLowerLeft_def quadrantLowerRight_def

lemma whichQuadrant_cases:
  "whichQuadrant r p = quadrantNone \<or> whichQuadrant r p = quadrantUpperLeft \<or>
   whichQuadrant r p = quadrantUpperRight \<or> whichQuadrant r p = quadrantLowerLeft \<or>
   whichQuadrant r p = quadrantLowerRight"
  by (simp add: whichQuadrant_def Let_def)

lemma addInternal_outside:
  "whichQuadrant b (position item) = quadrantNone \<Longrightarrow>
   addInternal (Suc f) qt (Node b d its a1 a2 a3 a4) item = Inr (Node b d its a1 a2 a3 a4)"
  by simp

lemma addInternal_at_depth:
  "whichQuadrant b (position item) \<noteq> quadrantNone \<Longrightarrow> maxDepth qt \<le> d \<Longrightarrow>
   addInternal (Suc f) qt (Node b d (Some es) a1 a2 a3 a4) item =
     Inr (Node b d (Some (es @ [item])) a1 a2 a3 a4)"
  by (simp add: slice_def)

lemma addInternal_append:
  "whichQuadrant b (position item) \<noteq> quadrantNone \<Longrightarrow> d < maxDepth qt \<Longrightarrow>
   int (length es) < maxItemsPerNode qt \<Longrightarrow>
   addInternal (Suc f) qt (Node b d (Some es) a1 a2 a3 a4) item =
     Inr (Node b d (Some (es @ [item])) a1 a2 a3 a4)"
  by (simp add: slice_def)

lemma addInternal_split:
  "whichQuadrant b (position item) \<noteq> quadrantNone \<Longrightarrow> d < maxDepth qt \<Longrightarrow>
   maxItemsPerNode qt \<le> int (length es) \<Longrightarrow>
   addInternal (Suc f) qt (Node b d (Some es) a1 a2 a3 a4) item =
     bindF (foldF (\<lambda>n i. addInternal f qt n i) es
              (Node b d None
                 (Some (Node (fst (quadrants b)) (d + 1) (Some []) None None None None))
                 (Some (Node (fst (snd (quadrants b))) (d + 1) (Some []) None None None None))
                 (Some (Node (fst (snd (snd (quadrants b)))) (d + 1) (Some []) None None None None))
                 (Some (Node (snd (snd (snd (quadrants b)))) (d + 1) (Some []) None None None None))))
           (\<lambda>n'. addInternal f qt n' item)"
  by (simp add: slice_def newNode_def split: prod.split)

lemma addInternal_descend:
  assumes "1 \<le> maxItemsPerNode qt"
  shows "whichQuadrant b (position item) = quadrantUpperLeft \<Longrightarrow>
     addInternal (Suc f) qt (Node b d None a1 a2 a3 a4) item =
       bindF (deref a1) (\<lambda>c. bindF (addInternal f qt c item) (\<lambda>c'.
         Inr (Node b d None (Some c') a2 a3 a4)))"
    and "whichQuadrant b (position item) = quadrantUpperRight \<Longrightarrow>
     addInternal (Suc f) qt (Node b d None a1 a2 a3 a4) item =
       bindF (deref a2) (\<lambda>c. bindF (addInternal f qt c item) (\<lambda>c'.
         Inr (Node b d None a1 (Some c') a3 a4)))"
    and "whichQuadrant b (position item) = quadrantLowerLeft \<Longrightarrow>
     addInternal (Suc f) qt (Node b d None a1 a2 a3 a4) item =
       bindF (deref a3) (\<lambda>c. bindF (addInternal f qt c item) (\<lambda>c'.
         Inr (Node b d None a1 a2 (Some c') a4)))"
    and "whichQuadrant b (position item) = quadrantLowerRight \<Longrightarrow>
     addInternal (Suc f) qt (Node b d None a1 a2 a3 a4) item =
       bindF (deref a4) (\<lambda>c. bindF (addInternal f qt c item) (\<lambda>c'.
         Inr (Node b d None a1 a2 a3 (Some c'))))"
  using assms by (simp_all add: slice_def quadrant_defs)

lemma list_all_mset_subset:
  "mset xs \<subseteq># add_mset x (mset ys) \<Longrightarrow> P x \<Longrightarrow> list_all P ys \<Longrightarrow> list_all P xs"
proof -
  assume a: "mset xs \<subseteq># add_mset x (mset ys)" and px: "P x" and ys: "list_all P ys"
  have "set xs \<subseteq> insert x (set ys)"
    using set_mset_mono [OF a] by simp
  with px ys show "list_all P xs"
    by (auto simp: list_all_iff)
qed

lemma post_same: "node_ok md mi n \<Longrightarrow> post md mi n item n"
  by (simp add: post_def stays_split_refl)

lemma post_leaf:
  assumes "node_ok md mi (Node b d (Some es) a1 a2 a3 a4)" "Contains b (position item)"
    "d < md \<longrightarrow> int (length es) < mi"
  shows "post md mi (Node b d (Some es) a1 a2 a3 a4) item (Node b d (Some (es @ [item])) a1 a2 a3 a4)"
  using assms by (auto simp: post_def)

lemma node_ok_internalD:
  assumes "node_ok md mi (Node b d None a1 a2 a3 a4)"
  obtains c1 c2 c3 c4 where "a1 = Some c1" "a2 = Some c2" "a3 = Some c3" "a4 = Some c4"
    "d < md"
    "bounds c1 = fst (quadrants b)" "depth c1 = d + 1" "node_ok md mi c1"
    "list_all (\<lambda>e. Contains b (position e)) (entries c1)"
    "bounds c2 = fst (snd (quadrants b))" "depth c2 = d + 1" "node_ok md mi c2"
    "list_all (\<lambda>e. Contains b (position e)) (entries c2)"
    "bounds c3 = fst (snd (snd (quadrants b)))" "depth c3 = d + 1" "node_ok md mi c3"
    "list_all (\<lambda>e. Contains b (position e)) (entries c3)"
    "bounds c4 = snd (snd (snd (quadrants b)))" "depth c4 = d + 1" "node_ok md mi c4"
    "list_all (\<lambda>e. Contains b (position e)) (entries c4)"
  using assms by (simp split: option.splits)

lemma post_descend:
  assumes i: "node_ok md mi (Node b d None (Some c1) (Some c2) (Some c3) (Some c4))"
    and c: "Contains b (position item)"
  shows "post md mi c1 item c' \<Longrightarrow>
      post md mi (Node b d None (Some c1) (Some c2) (Some c3) (Some c4)) item
        (Node b d None (Some c') (Some c2) (Some c3) (Some c4))"
    and "post md mi c2 item c' \<Longrightarrow>
      post md mi (Node b d None (Some c1) (Some c2) (Some c3) (Some c4)) item
        (Node b d None (Some c1) (Some c') (Some c3) (Some c4))"
    and "post md mi c3 item c' \<Longrightarrow>
      post md mi (Node b d None (Some c1) (Some c2) (Some c3) (Some c4)) item
        (Node b d None (Some c1) (Some c2) (Some c') (Some c4))"
    and "post md mi c4 item c' \<Longrightarrow>
      post md mi (Node b d None (Some c1) (Some c2) (Some c3) (Some c4)) item
        (Node b d None (Some c1) (Some c2) (Some c3) (Some c'))"
  using i c by (auto simp: post_def stays_split_refl elim: list_all_mset_subset)

lemma foldF_addInternal:
  assumes step: "\<And>n item. node_ok md mi n \<Longrightarrow> outcome md mi f n item (addInternal f qt n item)"
  shows "node_ok md mi s \<Longrightarrow> items s = None \<Longrightarrow>
    (case foldF (\<lambda>n i. addInternal f qt n i) xs s of
       Inr s' \<Rightarrow> node_ok md mi s' \<and> bounds s' = bounds s \<and> depth s' = depth s \<and>
                 items s' = None \<and> mset (entries s') \<subseteq># mset xs + mset (entries s)
     | Inl e \<Rightarrow> e = StackExhausted \<and> f < frames md s)"
proof (induction xs arbitrary: s)
  case Nil
  then show ?case by simp
next
  case (Cons x xs)
  show ?case
  proof (cases "addInternal f qt s x")
    case (Inl e)
    with step [OF Cons.prems(1), of x] show ?thesis
      by (simp add: outcome_def)
  next
    case (Inr s1)
    with step [OF Cons.prems(1), of x] have p: "post md mi s x s1"
      by (simp add: outcome_def)
    then have s1: "node_ok md mi s1" "items s1 = None" "bounds s1 = bounds s" "depth s1 = depth s"
      and sub: "mset (entries s1) \<subseteq># add_mset x (mset (entries s))"
      using Cons.prems(2) by (simp_all add: post_def)
    have fr: "frames md s1 = frames md s"
      using s1 Cons.prems(2) by (simp add: frames_def)
    show ?thesis
    proof (cases "foldF (\<lambda>n i. addInternal f qt n i) xs s1")
      case (Inl e)
      with Cons.IH [OF s1(1,2)] Inr fr show ?thesis by simp
    next
      case r: (Inr s')
      with Cons.IH [OF s1(1,2)] have k:
        "node_ok md mi s'" "bounds s' = bounds s1" "depth s' = depth s1" "items s' = None"
        and m: "mset (entries s') \<subseteq># mset xs + mset (entries s1)"
        by simp_all
      have a: "mset xs + mset (entries s1) \<subseteq># mset xs + add_mset x (mset (entries s))"
        using sub by simp
      have b: "mset xs + add_mset x (mset (entries s)) = mset (x # xs) + mset (entries s)"
        by simp
      have "mset (entries s') \<subseteq># mset (x # xs) + mset (entries s)"
        using subset_mset.order_trans [OF m a] unfolding b .
      then show ?thesis
        using Inr r s1 k by simp
    qed
  qed
qed

lemma outcome_Inr [simp]: "outcome md mi f n item (Inr n') = post md mi n item n'"
  by (simp add: outcome_def)

lemma outcome_Inl [simp]:
  "outcome md mi f n item (Inl e) = (e = StackExhausted \<and> f < frames md n)"
  by (simp add: outcome_def)

lemma descend_outcome:
  assumes "outcome md mi f c item r" "depth c = d + 1" "d < md"
    and "\<And>c'. post md mi c item c' \<Longrightarrow> post md mi n item (g c')"
    and "items n = None" "depth n = d"
  shows "outcome md mi (Suc f) n item (bindF r (\<lambda>c'. Inr (g c')))"
  using assms by (cases r) (auto simp: frames_def split: option.splits)

lemma node_ok_split:
  assumes "d < md" "0 \<le> mi"
  shows "node_ok md mi (Node b d None
           (Some (Node (fst (quadrants b)) (d + 1) (Some []) None None None None))
           (Some (Node (fst (snd (quadrants b))) (d + 1) (Some []) None None None None))
           (Some (Node (fst (snd (snd (quadrants b)))) (d + 1) (Some []) None None None None))
           (Some (Node (snd (snd (snd (quadrants b)))) (d + 1) (Some []) None None None None)))"
  using assms by simp

lemma stays_split_leaf: "stays_split (Node b d (Some es) a1 a2 a3 a4) n'"
  by (cases n') simp

lemma split_outcome:
  assumes step: "\<And>n item. node_ok md mi n \<Longrightarrow> outcome md mi f n item (addInternal f qt n item)"
    and s: "node_ok md mi s" "items s = None" "entries s = []" "bounds s = b" "depth s = d"
    and n: "d < md" "list_all (\<lambda>e. Contains b (position e)) es"
  shows "outcome md mi (Suc f) (Node b d (Some es) None None None None) item
           (bindF (foldF (\<lambda>n i. addInternal f qt n i) es s) (\<lambda>n'. addInternal f qt n' item))"
proof (cases "foldF (\<lambda>n i. addInternal f qt n i) es s")
  case (Inl e)
  with foldF_addInternal [OF step s(1,2), of es] s show ?thesis
    by (simp add: frames_def)
next
  case (Inr s')
  with foldF_addInternal [OF step s(1,2), of es] s have s':
    "node_ok md mi s'" "bounds s' = b" "depth s' = d" "items s' = None"
    and m: "mset (entries s') \<subseteq># mset es"
    by simp_all
  show ?thesis
  proof (cases "addInternal f qt s' item")
    case (Inl e)
    with step [OF s'(1), of item] Inr s' show ?thesis
      by (simp add: frames_def)
  next
    case r: (Inr n')
    with step [OF s'(1), of item] have p: "post md mi s' item n'"
      by simp
    have "mset (entries n') \<subseteq># add_mset item (mset es)"
      using p m by (auto simp: post_def intro: subset_mset.order_trans)
    with p s' Inr r show ?thesis
      by (simp add: post_def stays_split_leaf)
  qed
qed

lemma addInternal_outcome:
  assumes md: "maxDepth qt = md" and mi: "maxItemsPerNode qt = mi" and pos: "1 \<le> mi"
  shows "node_ok md mi n \<Longrightarrow> outcome md mi fuel n item (addInternal fuel qt n item)"
proof (induction fuel arbitrary: n item)
  case 0
  then show ?case by (simp add: frames_pos)
next
  case (Suc f)
  obtain b d its a1 a2 a3 a4 where n: "n = Node b d its a1 a2 a3 a4"
    by (cases n)
  show ?case
  proof (cases "whichQuadrant b (position item) = quadrantNone")
    case True
    with Suc.prems show ?thesis
      unfolding n addInternal_outside [OF True] by (simp add: post_same)
  next
    case False
    then have c: "Contains b (position item)"
      by (simp add: whichQuadrant_None)
    show ?thesis
    proof (cases its)
      case (Some es)
      with Suc.prems n have leaf: "a1 = None" "a2 = None" "a3 = None" "a4 = None" "d \<le> md"
        "list_all (\<lambda>e. Contains b (position e)) es"
        by simp_all
      consider "md \<le> d" | "d < md" "int (length es) < mi" | "d < md" "mi \<le> int (length es)"
        by linarith
      then show ?thesis
      proof cases
        case 1
        have eq: "addInternal (Suc f) qt (Node b d (Some es) a1 a2 a3 a4) item =
            Inr (Node b d (Some (es @ [item])) a1 a2 a3 a4)"
          using False 1 by (intro addInternal_at_depth) (simp_all add: md)
        show ?thesis
          unfolding n Some eq outcome_Inr
          by (rule post_leaf) (use Suc.prems c 1 in \<open>simp_all add: n Some\<close>)
      next
        case 2
        have eq: "addInternal (Suc f) qt (Node b d (Some es) a1 a2 a3 a4) item =
            Inr (Node b d (Some (es @ [item])) a1 a2 a3 a4)"
          using False 2 by (intro addInternal_append) (simp_all add: md mi)
        show ?thesis
          unfolding n Some eq outcome_Inr
          by (rule post_leaf) (use Suc.prems c 2 in \<open>simp_all add: n Some\<close>)
      next
        case 3
        have eq: "addInternal (Suc f) qt (Node b d (Some es) a1 a2 a3 a4) item =
            bindF (foldF (\<lambda>n i. addInternal f qt n i) es
              (Node b d None
                 (Some (Node (fst (quadrants b)) (d + 1) (Some []) None None None None))
                 (Some (Node (fst (snd (quadrants b))) (d + 1) (Some []) None None None None))
                 (Some (Node (fst (snd (snd (quadrants b)))) (d + 1) (Some []) None None None None))
                 (Some (Node (snd (snd (snd (quadrants b)))) (d + 1) (Some []) None None None None))))
              (\<lambda>n'. addInternal f qt n' item)"
          using False 3 by (intro addInternal_split) (simp_all add: md mi)
        show ?thesis
          unfolding n Some leaf eq [unfolded leaf]
          by (rule split_outcome [OF Suc.IH node_ok_split]) (use 3 pos leaf in simp_all)
      qed
    next
      case None
      from Suc.prems [unfolded n None] obtain c1 c2 c3 c4 where
        a: "a1 = Some c1" "a2 = Some c2" "a3 = Some c3" "a4 = Some c4" and d: "d < md" and
        k: "depth c1 = d + 1" "node_ok md mi c1" "depth c2 = d + 1" "node_ok md mi c2"
           "depth c3 = d + 1" "node_ok md mi c3" "depth c4 = d + 1" "node_ok md mi c4"
        by (rule node_ok_internalD)
      have ok: "node_ok md mi (Node b d None (Some c1) (Some c2) (Some c3) (Some c4))"
        using Suc.prems unfolding n None a .
      have q1: "1 \<le> maxItemsPerNode qt"
        using mi pos by simp
      from False whichQuadrant_cases [of b "position item"]
      consider "whichQuadrant b (position item) = quadrantUpperLeft"
        | "whichQuadrant b (position item) = quadrantUpperRight"
        | "whichQuadrant b (position item) = quadrantLowerLeft"
        | "whichQuadrant b (position item) = quadrantLowerRight"
        by blast
      then show ?thesis
      proof cases
        case 1
        show ?thesis
          unfolding n None a addInternal_descend(1) [OF q1 1] deref.simps bindF.simps
          by (rule descend_outcome [OF Suc.IH [OF k(2)] k(1) d post_descend(1) [OF ok c]]) simp_all
      next
        case 2
        show ?thesis
          unfolding n None a addInternal_descend(2) [OF q1 2] deref.simps bindF.simps
          by (rule descend_outcome [OF Suc.IH [OF k(4)] k(3) d post_descend(2) [OF ok c]]) simp_all
      next
        case 3
        show ?thesis
          unfolding n None a addInternal_descend(3) [OF q1 3] deref.simps bindF.simps
          by (rule descend_outcome [OF Suc.IH [OF k(6)] k(5) d post_descend(3) [OF ok c]]) simp_all
      next
        case 4
        show ?thesis
          unfolding n None a addInternal_descend(4) [OF q1 4] deref.simps bindF.simps
          by (rule descend_outcome [OF Suc.IH [OF k(8)] k(7) d post_descend(4) [OF ok c]]) simp_all
      qed
    qed
  qed
qed

lemma node_ok_shape: "node_ok md mi n \<Longrightarrow> leaf_or_internal n"
  by (induction n) (auto split: option.splits)

lemma frames_root: "depth r = 0 \<Longrightarrow> frames md r \<le> 2 * nat md + 1"
  by (simp add: frames_def split: option.split)

lemma tree_okD:
  assumes "tree_ok b md mi qt"
  obtains r where "root qt = Some r" "bounds r = b" "depth r = 0" "node_ok md mi r"
    "maxDepth qt = md" "maxItemsPerNode qt = mi" "1 \<le> mi"
  using assms by (auto simp: tree_ok_def split: option.splits)

lemma wrap64_add: "wrap64 (wrap64 i + j) = wrap64 (i + j)"
proof -
  have "wrap64 i + j + 2 ^ 63 = (i + 2 ^ 63) mod 2 ^ 64 + j"
    by (simp add: wrap64_def)
  then have "(wrap64 i + j + 2 ^ 63) mod 2 ^ 64 = (i + 2 ^ 63 + j) mod 2 ^ 64"
    by (simp only: mod_add_left_eq)
  also have "i + 2 ^ 63 + j = i + j + 2 ^ 63"
    by simp
  finally show ?thesis
    by (simp only: wrap64_def [of "wrap64 i + j"] wrap64_def [of "i + j"])
qed

lemma wrap64_idem: "wrap64 (wrap64 i) = wrap64 i"
  using wrap64_add [of i 0] by simp

lemma wrap64_values: "wrap64 0 = 0" "wrap64 1 = 1" "wrap64 2 = 2" "wrap64 3 = 3" "wrap64 4 = 4"
  by (simp_all add: wrap64_def)

lemma wrap64_small: "0 \<le> i \<Longrightarrow> i < 2 ^ 63 \<Longrightarrow> wrap64 i = i"
  by (simp add: wrap64_def)

lemma NewQuadtree_ok:
  "NewQuadtree b md mi = Inr qt \<Longrightarrow> tree_ok b md mi qt \<and> qsize qt = 0"
  by (auto simp: NewQuadtree_def tree_ok_def wrap64_values split: if_splits)

lemma Add_rejects:
  "root qt = Some r \<Longrightarrow> \<not> Contains (bounds r) p \<Longrightarrow> Add fuel qt d p = Inr (qt, Some ErrOutsideBounds)"
  by (simp add: Add_def)

lemma Add_outcome:
  assumes ok: "tree_ok b md mi qt"
  shows "case Add fuel qt d p of
            Inl e \<Rightarrow> e = StackExhausted \<and> fuel < 2 * nat md + 1 \<and> Contains b p
          | Inr res \<Rightarrow>
              tree_ok b md mi (fst res) \<and>
              (if Contains b p then snd res = None \<and> qsize (fst res) = wrap64 (qsize qt + 1)
               else snd res = Some ErrOutsideBounds \<and> fst res = qt) \<and>
              (\<exists>r r'. root qt = Some r \<and> root (fst res) = Some r' \<and> stays_split r r' \<and>
                 mset (entries r') \<subseteq># add_mset (treeEntry p d) (mset (entries r)))"
proof -
  from ok obtain r where r: "root qt = Some r" "bounds r = b" "depth r = 0" "node_ok md mi r"
    and cfg: "maxDepth qt = md" "maxItemsPerNode qt = mi" "1 \<le> mi"
    by (rule tree_okD)
  show ?thesis
  proof (cases "Contains b p")
    case False
    with r ok show ?thesis
      by (simp add: Add_def stays_split_refl)
  next
    case True
    have out: "outcome md mi fuel r (treeEntry p d) (addInternal fuel qt r (treeEntry p d))"
      using cfg r(4) by (rule addInternal_outcome)
    show ?thesis
    proof (cases "addInternal fuel qt r (treeEntry p d)")
      case (Inl e)
      with out frames_root [OF r(3), of md] True r show ?thesis
        by (simp add: Add_def)
    next
      case (Inr r')
      with out have "post md mi r (treeEntry p d) r'"
        by simp
      with True r cfg Inr show ?thesis
        by (simp add: Add_def post_def tree_ok_def wrap64_idem)
    qed
  qed
qed

lemma addAll_outcome:
  "tree_ok b md mi qt \<Longrightarrow>
   (case addAll fuel qt cs of
      Inl e \<Rightarrow> e = StackExhausted \<and> fuel < 2 * nat md + 1
    | Inr res \<Rightarrow>
        tree_ok b md mi (fst res) \<and>
        qsize (fst res) = wrap64 (qsize qt + int (length (accepted b cs))) \<and>
        snd res = verdicts b cs)"
proof (induction cs arbitrary: qt)
  case Nil
  then show ?case by (simp add: accepted_def verdicts_def tree_ok_def)
next
  case (Cons c cs)
  show ?case
  proof (cases "Add fuel qt (fst c) (snd c)")
    case (Inl e)
    with Add_outcome [OF Cons.prems, where fuel = fuel and d = "fst c" and p = "snd c"] show ?thesis
      by simp
  next
    case (Inr res)
    with Add_outcome [OF Cons.prems, where fuel = fuel and d = "fst c" and p = "snd c"] have ok: "tree_ok b md mi (fst res)"
      and st: "if Contains b (snd c) then snd res = None \<and> qsize (fst res) = wrap64 (qsize qt + 1)
               else snd res = Some ErrOutsideBounds \<and> fst res = qt"
      by simp_all
    show ?thesis
    proof (cases "addAll fuel (fst res) cs")
      case (Inl e)
      with Cons.IH [OF ok] Inr show ?thesis
        by simp
    next
      case r: (Inr res')
      with Cons.IH [OF ok] Inr st show ?thesis
        by (simp add: accepted_def verdicts_def wrap64_add add.assoc split: if_splits)
    qed
  qed
qed

lemma addAll_returns:
  assumes "tree_ok b md mi qt" "2 * nat md + 1 \<le> fuel"
  obtains qt' where "addAll fuel qt cs = Inr (qt', verdicts b cs)"
proof (cases "addAll fuel qt cs")
  case (Inl e)
  with addAll_outcome [OF assms(1), of fuel cs] assms(2) show ?thesis
    by simp
next
  case (Inr res)
  with addAll_outcome [OF assms(1), of fuel cs] have "snd res = verdicts b cs"
    by simp
  with Inr that [of "fst res"] show ?thesis
    by (cases res) simp
qed

lemma addAll_reach:
  assumes "NewQuadtree b md mi = Inr qt0" "addAll fuel qt0 cs = Inr (qt, errs)"
  shows "tree_ok b md mi qt" "qsize qt = wrap64 (int (length (accepted b cs)))" "errs = verdicts b cs"
  using addAll_outcome [of b md mi qt0 fuel cs] NewQuadtree_ok [OF assms(1)] assms(2)
  by simp_all

lemma no_overlap:
  fixes nb :: "('a::{linorder,plus}) Rect"
  shows "\<not> overlaps nb q \<Longrightarrow> Contains nb p \<Longrightarrow> \<not> Contains q p"
  by (auto simp: overlaps_def Contains_def)

lemma covers_Contains:
  fixes b :: "('a::{linorder,plus}) Rect"
  shows "covers q b \<Longrightarrow> Contains b p \<Longrightarrow> Contains q p"
  by (auto simp: covers_def Contains_def)

lemma entries_in_bounds:
  "node_ok md mi n \<Longrightarrow> list_all (\<lambda>e. Contains (bounds n) (position e)) (entries n)"
  by (cases n) (auto split: option.splits)

lemma fold_skip:
  "list_all (\<lambda>e. \<not> P e) es \<Longrightarrow> fold (\<lambda>e s. if P e then g e s else s) es s = s"
  by (induction es) simp_all

lemma queryInternal_fold:
  fixes n :: "('a::{linorder,plus,one,inverse}, 'd) node"
  shows "node_ok md mi n \<Longrightarrow>
    queryInternal n q c s =
      Inr (fold (\<lambda>e s. if Contains q (position e) then snd (c e s) else s) (entries n) s)"
proof (induction n arbitrary: s)
  case (Node b d its a1 a2 a3 a4)
  show ?case
  proof (cases "overlaps b q")
    case False
    have "list_all (\<lambda>e. Contains b (position e)) (entries (Node b d its a1 a2 a3 a4))"
      using entries_in_bounds [OF Node.prems] by simp
    then have "list_all (\<lambda>e. \<not> Contains q (position e)) (entries (Node b d its a1 a2 a3 a4))"
      using no_overlap [OF False] by (auto simp: list_all_iff)
    from fold_skip [where P = "\<lambda>e. Contains q (position e)" and g = "\<lambda>e s. snd (c e s)"
        and s = s, OF this] False
    show ?thesis
      by simp
  next
    case True
    show ?thesis
    proof (cases its)
      case (Some es)
      with True show ?thesis by simp
    next
      case None
      from Node.prems [unfolded None] obtain c1 c2 c3 c4 where
        a: "a1 = Some c1" "a2 = Some c2" "a3 = Some c3" "a4 = Some c4" and
        k: "node_ok md mi c1" "node_ok md mi c2" "node_ok md mi c3" "node_ok md mi c4"
        by (rule node_ok_internalD)
      have q: "queryInternal c1 q c t =
            Inr (fold (\<lambda>e s. if Contains q (position e) then snd (c e s) else s) (entries c1) t)"
          "queryInternal c2 q c t =
            Inr (fold (\<lambda>e s. if Contains q (position e) then snd (c e s) else s) (entries c2) t)"
          "queryInternal c3 q c t =
            Inr (fold (\<lambda>e s. if Contains q (position e) then snd (c e s) else s) (entries c3) t)"
          "queryInternal c4 q c t =
            Inr (fold (\<lambda>e s. if Contains q (position e) then snd (c e s) else s) (entries c4) t)"
        for t
        using Node.IH k a by simp_all
      show ?thesis
        using True by (simp add: None a q)
    qed
  qed
qed

lemma fold_collect:
  "fold (\<lambda>e its. if P e then snd (True, its @ [data e]) else its) es acc =
     acc @ map data (filter P es)"
  by (induction es arbitrary: acc) simp_all

lemma Query_entries:
  fixes qt :: "('a::{linorder,plus,one,inverse}, 'd) Quadtree"
  assumes "root qt = Some r" "node_ok md mi r"
  shows "Query qt q = Inr (map data (filter (\<lambda>e. Contains q (position e)) (entries r)))"
  using assms by (simp add: Query_def queryInternal_fold fold_collect)

lemma node_ok_nodes: "node_ok md mi n \<Longrightarrow> list_all (node_ok md mi) (nodes n)"
  by (induction n) (auto split: option.splits)

lemma node_ok_quadrant_children: "node_ok md mi n \<Longrightarrow> quadrant_children n"
  by (cases n) (auto simp: quadrant_children_def split: option.splits prod.splits)

lemma stays_split_Node:
  "stays_split (Node b d its a1 a2 a3 a4) (Node b' d' its' c1 c2 c3 c4) =
     (its = None \<longrightarrow> its' = None \<and> kept a1 c1 \<and> kept a2 c2 \<and> kept a3 c3 \<and> kept a4 c4)"
  by (simp add: kept_def)

lemma kept_trans:
  assumes "\<And>x y z. x \<in> set_option a \<Longrightarrow> stays_split x y \<Longrightarrow> stays_split y z \<Longrightarrow> stays_split x z"
    and "kept a c" "kept c e"
  shows "kept a e"
proof (cases a)
  case None
  then show ?thesis by (simp add: kept_def)
next
  case (Some x)
  with assms(2) obtain y where c: "c = Some y" "stays_split x y"
    by (cases c) (simp_all add: kept_def)
  with assms(3) obtain z where e: "e = Some z" "stays_split y z"
    by (cases e) (simp_all add: kept_def)
  from assms(1) [of x y z] Some c e show ?thesis
    by (simp add: kept_def)
qed

lemma stays_split_trans:
  "stays_split x y \<Longrightarrow> stays_split y z \<Longrightarrow> stays_split x z"
proof (induction x arbitrary: y z)
  case (Node b d its a1 a2 a3 a4)
  obtain b' d' its' c1 c2 c3 c4 where y: "y = Node b' d' its' c1 c2 c3 c4"
    by (cases y)
  obtain b'' d'' its'' e1 e2 e3 e4 where z: "z = Node b'' d'' its'' e1 e2 e3 e4"
    by (cases z)
  show ?case
  proof (cases its)
    case (Some es)
    then show ?thesis by (simp only: stays_split_leaf)
  next
    case None
    from Node.prems(1) have p: "its' = None" "kept a1 c1" "kept a2 c2" "kept a3 c3" "kept a4 c4"
      unfolding y None stays_split_Node by blast+
    from Node.prems(2) have q: "its'' = None" "kept c1 e1" "kept c2 e2" "kept c3 e3" "kept c4 e4"
      unfolding y z p(1) stays_split_Node by blast+
    have k1: "kept a1 e1"
      by (rule kept_trans [OF _ p(2) q(2)]) (erule Node.IH(1), assumption+)
    have k2: "kept a2 e2"
      by (rule kept_trans [OF _ p(3) q(3)]) (erule Node.IH(2), assumption+)
    have k3: "kept a3 e3"
      by (rule kept_trans [OF _ p(4) q(4)]) (erule Node.IH(3), assumption+)
    have k4: "kept a4 e4"
      by (rule kept_trans [OF _ p(5) q(5)]) (erule Node.IH(4), assumption+)
    from q(1) k1 k2 k3 k4 show ?thesis
      unfolding z None stays_split_Node by blast
  qed
qed

lemma addAll_stays_split:
  "tree_ok b md mi qt \<Longrightarrow> addAll fuel qt cs = Inr (qt', errs) \<Longrightarrow>
   \<exists>r r'. root qt = Some r \<and> root qt' = Some r' \<and> stays_split r r'"
proof (induction cs arbitrary: qt errs)
  case Nil
  then show ?case by (auto elim!: tree_okD simp: stays_split_refl)
next
  case (Cons c cs)
  from Cons.prems(2) obtain res where a: "Add fuel qt (fst c) (snd c) = Inr res"
    by (cases "Add fuel qt (fst c) (snd c)") simp_all
  with Cons.prems(2) obtain res' where b: "addAll fuel (fst res) cs = Inr res'" and q: "qt' = fst res'"
    by (cases "addAll fuel (fst res) cs") auto
  from Add_outcome [OF Cons.prems(1), where fuel = fuel and d = "fst c" and p = "snd c"] a
  obtain r r1 where ok: "tree_ok b md mi (fst res)" and
    r: "root qt = Some r" "root (fst res) = Some r1" "stays_split r r1"
    by auto
  from Cons.IH [OF ok, of "snd res'"] b q obtain r2 where
    "root qt' = Some r2" "stays_split r1 r2"
    using r(2) by (cases res') auto
  with r stays_split_trans show ?case
    by blast
qed

section \<open>Evaluating the binary64 model\<close>

text \<open>
  The roundings that the evaluations below need, each computed from the definition of
  \<open>round64\<close>. Most of the arguments are \<^verbatim>\<open>float64\<close> numbers already; the others are the
  decimal literals of the tests, the sum \<open>0.25 + 0.05\<close>, and the midpoints and edges of the
  two narrow trees, where \<open>1 + 2\<^sup>-\<^sup>5\<^sup>3\<close> is rounded down to \<open>1\<close>.
\<close>

lemma round64_0: "round64 0 = 0"
  by (simp add: round64_def)

lemma round64_facts:
  "round64 (- 1) = - 1"
  "round64 (- (9 / 10)) = - (8106479329266893 / 9007199254740992)"
  "round64 (- (3 / 4)) = - (3 / 4)"
  "round64 (- (7 / 10)) = - (3152519739159347 / 4503599627370496)"
  "round64 (- (1 / 2)) = - (1 / 2)"
  "round64 (- (3 / 10)) = - (5404319552844595 / 18014398509481984)"
  "round64 (- (1 / 4)) = - (1 / 4)"
  "round64 (- (1 / 10)) = - (3602879701896397 / 36028797018963968)"
  "round64 (1 / 18014398509481984) = 1 / 18014398509481984"
  "round64 (1 / 9007199254740992) = 1 / 9007199254740992"
  "round64 (3 / 18014398509481984) = 3 / 18014398509481984"
  "round64 (3 / 9007199254740992) = 3 / 9007199254740992"
  "round64 (1 / 20) = 3602879701896397 / 72057594037927936"
  "round64 (1 / 4) = 1 / 4"
  "round64 (3 / 10) = 5404319552844595 / 18014398509481984"
  "round64 (21617278211378381 / 72057594037927936) = 5404319552844595 / 18014398509481984"
  "round64 (1 / 2) = 1 / 2"
  "round64 1 = 1"
  "round64 (18014398509481985 / 18014398509481984) = 1"
  "round64 (9007199254740993 / 9007199254740992) = 1"
  "round64 (18014398509481987 / 18014398509481984) = 4503599627370497 / 4503599627370496"
  "round64 (4503599627370497 / 4503599627370496) = 4503599627370497 / 4503599627370496"
  "round64 (9007199254740995 / 9007199254740992) = 2251799813685249 / 2251799813685248"
  "round64 (4503599627370499 / 4503599627370496) = 4503599627370499 / 4503599627370496"
  "round64 (9007199254740999 / 9007199254740992) = 1125899906842625 / 1125899906842624"
  "round64 (5 / 4) = 5 / 4"
  "round64 2 = 2"
  "round64 (5 / 2) = 5 / 2"
  "round64 5 = 5"
  "round64 6 = 6"
  by code_simp+

lemmas f64_arith = plus_f64_def divide_f64_def less_f64_def less_eq_f64_def zero_f64_def
  one_f64_def two_def eps64_def half_eps_def lit_def round64_0 round64_facts

lemmas tree_eval = Add_def Query_def Contains_def overlaps_def whichQuadrant_def quadrants_def
  Let_def slice_def newNode_def quadrantNone_def quadrantUpperLeft_def quadrantUpperRight_def
  quadrantLowerLeft_def quadrantLowerRight_def wrap64_values eval_nat_numeral

lemma finite64_0: "finite64 0"
  by (simp add: finite64_def zero_f64_def round64_0)

lemma finite64_1: "finite64 1"
  by (simp add: finite64_def one_f64_def round64_facts)

lemma plus_zero_f64: "finite64 x \<Longrightarrow> x + 0 = x"
  by (cases x) (simp add: finite64_def plus_f64_def zero_f64_def)

lemma zero_size_Contains:
  fixes q :: "f64 Rect"
  shows "finite64 (rX q) \<Longrightarrow> finite64 (rY q) \<Longrightarrow> Width q = 0 \<or> Height q = 0 \<Longrightarrow>
    \<not> Contains q p"
  by (auto simp: Contains_def plus_zero_f64)

lemma ulp_created: "NewQuadtree ulp_bounds 1 1 = Inr ulp_new"
  by (simp add: NewQuadtree_def ulp_new_def)

lemma ulp_trace: "addAll 3 ulp_new corner_adds = Inr (ulp_tree, [None, None])"
  by (simp add: ulp_new_def corner_adds_def ulp_tree_def ulp_root_def ulp_bounds_def
      tree_eval f64_arith)

lemma ulp_geometry:
  "Contains ulp_bounds (Point 1 1)"
  "whichQuadrant ulp_bounds (Point 1 1) = quadrantUpperRight"
  "quadrants ulp_bounds = (Rect 1 1 half_eps half_eps, Rect 1 1 half_eps half_eps,
     Rect 1 1 half_eps half_eps, Rect 1 1 half_eps half_eps)"
  "\<not> Contains (Rect 1 1 half_eps half_eps) (Point 1 1)"
  "whichQuadrant (Rect 1 1 half_eps half_eps) (Point 1 1) = quadrantNone"
  by (simp_all add: ulp_bounds_def tree_eval f64_arith)

lemma ulp_query: "Query ulp_tree ulp_bounds = Inr []"
  by (simp add: ulp_tree_def ulp_root_def ulp_bounds_def tree_eval f64_arith)

lemma wide_created: "NewQuadtree wide_bounds 1 1 = Inr wide_new"
  by (simp add: NewQuadtree_def wide_new_def)

lemma wide_trace: "addAll 3 wide_new corner_adds = Inr (wide_tree, [None, None])"
  by (simp add: wide_new_def corner_adds_def wide_tree_def wide_root_def wide_ur_def
      wide_bounds_def tree_eval f64_arith)

lemma wide_geometry:
  "Contains (bounds wide_ur) wide_point" "\<not> Contains wide_bounds wide_point"
  by (simp_all add: wide_ur_def wide_point_def wide_bounds_def tree_eval f64_arith)

lemma five_created: "NewQuadtree five_bounds 1 1 = Inr five_new"
  by (simp add: NewQuadtree_def five_new_def)

lemma five_trace:
  "addAll 3 five_new five_adds = Inr (five_tree, [None, Some ErrOutsideBounds, None])"
  by (simp add: five_new_def five_adds_def five_tree_def five_root_def five_node_def
      five_bounds_def tree_eval f64_arith)

lemma five_trace':
  "addAll 3 five_tree [(3, Point 1 1)] = Inr (five_tree', [None])"
  by (simp add: five_tree_def five_tree'_def five_root_def five_root'_def five_node_def
      five_bounds_def tree_eval f64_arith)

lemma five_verdicts:
  "verdicts five_bounds five_adds = [None, Some ErrOutsideBounds, None]"
  "accepted five_bounds five_adds = [(1, Point 1 1), (2, Point 1 1)]"
  "\<not> Contains five_bounds (Point (F64 5) 1)"
  by (simp_all add: verdicts_def accepted_def five_adds_def five_bounds_def tree_eval f64_arith)

lemma test_created: "NewQuadtree test_bounds 2 2 = Inr test_new"
  by (simp add: NewQuadtree_def test_new_def)

lemma test_trace: "addAll 5 test_new test_adds = Inr (test_tree, [None, None, None, None])"
  by (simp add: test_new_def test_adds_def test_tree_def test_root_def test_bounds_def
      tree_eval f64_arith)

lemma test_count: "queryInternal test_root test_bounds count_then_stop 0 = Inr 4"
  by (simp add: test_root_def test_bounds_def count_then_stop_def tree_eval f64_arith)

section \<open>Containment and overlap\<close>

lemma f64_comparisons:
  "(0::f64) \<le> 1" "(1::f64) < 0 + F64 5" "0 \<le> F64 5" "\<not> F64 5 < 0 + F64 5"
  "lit (1 / 4) \<le> lit (3 / 10)" "\<not> lit (3 / 10) < lit (1 / 4) + lit (1 / 20)"
  "(0::f64) < 1 + 1" "(0::f64) + 1 = 1" "(1::f64) + 0 = 1" "\<not> (1::f64) < 1" "(0::f64) < 1"
  by (simp_all add: f64_arith)

lemma five_bounds_sel:
  "rX five_bounds = 0" "rY five_bounds = 0" "Width five_bounds = F64 5" "Height five_bounds = F64 5"
  by (simp_all add: five_bounds_def)

text \<open>
  C3. \<open>Contains r p\<close> returns true exactly when \<open>r.x \<le> p.x < r.x + r.width\<close> and
  \<open>r.y \<le> p.y < r.y + r.height\<close>, for every coordinate type and whatever its \<open>+\<close> does,
  so also for \<^verbatim>\<open>float64\<close> and its rounded sum. A \<^verbatim>\<open>float64\<close> rectangle of zero width or
  of zero height contains no point.
\<close>

theorem Contains_halfopen:
  fixes r :: "('a::{ord,plus}) Rect" and q :: "f64 Rect"
  shows "(Contains r p \<longleftrightarrow>
            rX r \<le> pX p \<and> pX p < rX r + Width r \<and> rY r \<le> pY p \<and> pY p < rY r + Height r) \<and>
         (finite64 (rX q) \<and> finite64 (rY q) \<and> (Width q = 0 \<or> Height q = 0) \<longrightarrow>
            \<not> Contains q p')"
  by (auto simp: Contains_def plus_zero_f64)

theorem Contains_halfopen_witness:
  "Contains five_bounds (Point 1 1) \<and>
   \<not> Contains five_bounds (Point (F64 5) 1) \<and>
   \<not> Contains (Rect (lit (1 / 4)) (lit (1 / 4)) (lit (1 / 20)) (lit (1 / 20)))
        (Point (lit (3 / 10)) (lit (3 / 10))) \<and>
   finite64 1 \<and> \<not> Contains (Rect 1 1 0 0) (Point (1::f64) 1)"
  using Contains_halfopen [of five_bounds "Point 1 1" "Rect 1 1 0 0" "Point 1 1"]
    Contains_halfopen [of five_bounds "Point (F64 5) 1" "Rect 1 1 0 0" "Point 1 1"]
    Contains_halfopen [of "Rect (lit (1 / 4)) (lit (1 / 4)) (lit (1 / 20)) (lit (1 / 20))"
      "Point (lit (3 / 10)) (lit (3 / 10))" "Rect 1 1 0 0" "Point 1 1"]
  by (simp add: five_bounds_sel finite64_1 f64_comparisons)

text \<open>
  C7, as the claim states it, fails: the query rectangle \<^verbatim>\<open>Rect{1, 1, 0, 0}\<close> of
  \<^verbatim>\<open>TestQuery_withPointRect_doesNotreturnItemAtPosition\<close> has zero width and zero height,
  and the overlap test says that it overlaps the bounds \<^verbatim>\<open>Rect{0, 0, 5, 5}\<close> of the tree.
\<close>

theorem zero_size_query_overlaps:
  "Width (Rect 1 1 0 0 :: f64 Rect) = 0 \<and> Height (Rect 1 1 0 0 :: f64 Rect) = 0 \<and>
   overlaps five_bounds (Rect 1 1 0 0)"
  by (simp add: five_bounds_def overlaps_def f64_arith)

text \<open>
  C7, amended. \<open>overlaps r1 r2\<close> returns true exactly when each rectangle starts strictly
  before the other ends, on both axes; two rectangles of which one ends where the other
  starts do not overlap. A \<^verbatim>\<open>float64\<close> query rectangle of zero width or of zero height can
  pass the overlap test, but \<open>Query\<close> with it returns no payload, on every tree built by
  \<open>NewQuadtree\<close> and \<open>Add\<close>, because such a rectangle contains no point.
\<close>

theorem overlaps_strict:
  fixes r1 r2 :: "('a::{linorder,plus}) Rect" and b q :: "f64 Rect"
    and cs :: "('d \<times> f64 Point) list"
  shows "(overlaps r1 r2 \<longleftrightarrow>
            rX r1 < rX r2 + Width r2 \<and> rX r2 < rX r1 + Width r1 \<and>
            rY r1 < rY r2 + Height r2 \<and> rY r2 < rY r1 + Height r1) \<and>
         (rX r1 + Width r1 = rX r2 \<or> rX r2 + Width r2 = rX r1 \<or>
          rY r1 + Height r1 = rY r2 \<or> rY r2 + Height r2 = rY r1 \<longrightarrow> \<not> overlaps r1 r2) \<and>
         (NewQuadtree b md mi = Inr qt0 \<and> addAll fuel qt0 cs = Inr (qt, errs) \<and>
          finite64 (rX q) \<and> finite64 (rY q) \<and> (Width q = 0 \<or> Height q = 0) \<longrightarrow>
            Query qt q = Inr [])"
proof (intro conjI impI)
  show "overlaps r1 r2 \<longleftrightarrow>
      rX r1 < rX r2 + Width r2 \<and> rX r2 < rX r1 + Width r1 \<and>
      rY r1 < rY r2 + Height r2 \<and> rY r2 < rY r1 + Height r1"
    by (auto simp: overlaps_def)
next
  assume "rX r1 + Width r1 = rX r2 \<or> rX r2 + Width r2 = rX r1 \<or>
      rY r1 + Height r1 = rY r2 \<or> rY r2 + Height r2 = rY r1"
  then show "\<not> overlaps r1 r2"
    by (auto simp: overlaps_def)
next
  assume a: "NewQuadtree b md mi = Inr qt0 \<and> addAll fuel qt0 cs = Inr (qt, errs) \<and>
      finite64 (rX q) \<and> finite64 (rY q) \<and> (Width q = 0 \<or> Height q = 0)"
  then have "tree_ok b md mi qt"
    by (auto intro: addAll_reach(1))
  then obtain r where r: "root qt = Some r" "node_ok md mi r"
    by (rule tree_okD)
  have "\<not> Contains q p" for p
    using a zero_size_Contains [of q p] by blast
  then show "Query qt q = Inr []"
    by (simp add: Query_entries [OF r])
qed

theorem overlaps_strict_witness:
  "overlaps five_bounds (Rect 1 1 1 1) \<and>
   \<not> overlaps (Rect 0 0 1 1) (Rect 1 0 1 (1::f64)) \<and>
   NewQuadtree five_bounds 1 1 = Inr five_new \<and>
   addAll 3 five_new five_adds = Inr (five_tree, [None, Some ErrOutsideBounds, None]) \<and>
   finite64 1 \<and> Query five_tree (Rect 1 1 0 0) = Inr []"
  using overlaps_strict [of five_bounds "Rect 1 1 1 1" five_bounds 1 1 five_new 3 five_adds
      five_tree "[None, Some ErrOutsideBounds, None]" "Rect 1 1 0 0"]
    overlaps_strict [of "Rect 0 0 1 1" "Rect 1 0 1 (1::f64)" five_bounds 1 1 five_new 3 five_adds
      five_tree "[None, Some ErrOutsideBounds, None]" "Rect 1 1 0 0"]
  by (simp add: five_created five_trace finite64_1 five_bounds_sel f64_comparisons)

section \<open>Construction, insertion and size\<close>

text \<open>
  C5. \<open>NewQuadtree\<close> returns an error, and no tree, exactly when \<open>maxDepth < 1\<close> or
  \<open>maxItemsPerNode < 1\<close>. Otherwise it returns a tree with the two parameters, size 0, and
  a root that is an empty leaf at depth 0 with the given bounds.
\<close>

theorem NewQuadtree_cases:
  "(\<exists>e. NewQuadtree b md mi = (Inl e :: go_error + ('a, 'd) Quadtree)) = (md < 1 \<or> mi < 1) \<and>
   (\<not> (md < 1 \<or> mi < 1) \<longrightarrow>
      NewQuadtree b md mi =
        (Inr \<lparr>maxDepth = md, maxItemsPerNode = mi,
              root = Some (Node b 0 (Some []) None None None None),
              qsize = 0, debugAssertions = False\<rparr> :: go_error + ('a, 'd) Quadtree))"
  by (simp add: NewQuadtree_def)

theorem NewQuadtree_cases_witness:
  "(\<exists>e. NewQuadtree (Rect 0 0 1 (1::f64)) 0 5 = (Inl e :: go_error + (f64, nat) Quadtree)) \<and>
   (\<exists>e. NewQuadtree (Rect 0 0 1 (1::f64)) 5 0 = (Inl e :: go_error + (f64, nat) Quadtree)) \<and>
   NewQuadtree (Rect 0 0 1 (1::f64)) 5 10 =
     (Inr \<lparr>maxDepth = 5, maxItemsPerNode = 10,
           root = Some (Node (Rect 0 0 1 1) 0 (Some []) None None None None),
           qsize = 0, debugAssertions = False\<rparr> :: go_error + (f64, nat) Quadtree)"
  using NewQuadtree_cases [where ?'a = f64 and ?'d = nat and b = "Rect 0 0 1 1" and md = 0 and mi = 5]
    NewQuadtree_cases [where ?'a = f64 and ?'d = nat and b = "Rect 0 0 1 1" and md = 5 and mi = 0]
    NewQuadtree_cases [where ?'a = f64 and ?'d = nat and b = "Rect 0 0 1 1" and md = 5 and mi = 10]
  by simp

text \<open>
  C4. On a tree made by \<open>NewQuadtree\<close> with bounds \<open>b\<close>, a sequence of \<open>Add\<close> calls runs
  to its end when there is stack for \<open>2 * maxDepth + 1\<close> nested calls. After it, \<open>Size\<close>
  is the number \<open>N\<close> of calls whose position is contained in \<open>b\<close>, as an \<^verbatim>\<open>int\<close> holds
  it, which is \<open>N\<close> itself for every \<open>N\<close> below \<open>2\<^sup>6\<^sup>3\<close>; those calls returned
  \<^verbatim>\<open>nil\<close> and the others returned an error. An \<open>Add\<close> whose position is not contained
  in \<open>b\<close> returns the error and the tree it was given, size included, as it was.
\<close>

theorem Size_counts_accepted:
  fixes b :: "('a::{ord,plus,one,inverse}) Rect" and cs :: "('d \<times> 'a Point) list"
  assumes "NewQuadtree b md mi = Inr qt0"
  shows "(2 * nat md + 1 \<le> fuel \<longrightarrow> (\<exists>qt. addAll fuel qt0 cs = Inr (qt, verdicts b cs))) \<and>
         (\<forall>qt errs. addAll fuel qt0 cs = Inr (qt, errs) \<longrightarrow>
            Size qt = wrap64 (int (length (accepted b cs))) \<and>
            (int (length (accepted b cs)) < 2 ^ 63 \<longrightarrow> Size qt = int (length (accepted b cs))) \<and>
            errs = verdicts b cs \<and>
            (\<forall>d p. \<not> Contains b p \<longrightarrow> Add fuel qt d p = Inr (qt, Some ErrOutsideBounds)))"
proof (intro conjI impI allI)
  assume "2 * nat md + 1 \<le> fuel"
  with NewQuadtree_ok [OF assms] show "\<exists>qt. addAll fuel qt0 cs = Inr (qt, verdicts b cs)"
    by (meson addAll_returns)
next
  fix qt errs assume a: "addAll fuel qt0 cs = Inr (qt, errs)"
  from addAll_reach [OF assms a]
  show "Size qt = wrap64 (int (length (accepted b cs)))" "errs = verdicts b cs"
    by (simp_all add: Size_def)
  then show "Size qt = int (length (accepted b cs))" if "int (length (accepted b cs)) < 2 ^ 63"
    using that by (simp add: wrap64_small)
  fix d p assume "\<not> Contains b p"
  with addAll_reach(1) [OF assms a] show "Add fuel qt d p = Inr (qt, Some ErrOutsideBounds)"
    by (auto elim!: tree_okD intro: Add_rejects)
qed

theorem Size_counts_accepted_witness:
  "NewQuadtree five_bounds 1 1 = Inr five_new \<and>
   addAll 3 five_new five_adds = Inr (five_tree, [None, Some ErrOutsideBounds, None]) \<and>
   Size five_tree = 2 \<and>
   Add 3 five_tree 7 (Point (F64 5) 1) = Inr (five_tree, Some ErrOutsideBounds)"
  using Size_counts_accepted [OF five_created, of 3 five_adds] five_trace
  by (simp add: five_created five_verdicts)

section \<open>The shape of the tree\<close>

text \<open>
  C8. In every tree reached from \<open>NewQuadtree\<close> by \<open>Add\<close> calls, every node is either a
  leaf (\<open>items\<close> not \<^verbatim>\<open>nil\<close>, the four children \<^verbatim>\<open>nil\<close>) or internal (\<open>items\<close>
  \<^verbatim>\<open>nil\<close>, the four children set), and whatever further \<open>Add\<close> calls follow, a node that
  is internal stays internal. \<open>Query\<close> and \<open>Size\<close> only read the tree: in the model they
  return no tree at all. The calls run to their end when there is stack for
  \<open>2 * maxDepth + 1\<close> nested calls.
\<close>

theorem leaf_xor_internal:
  fixes b :: "('a::{ord,plus,one,inverse}) Rect" and cs cs' :: "('d \<times> 'a Point) list"
  assumes "NewQuadtree b md mi = Inr qt0"
  shows "(2 * nat md + 1 \<le> fuel \<longrightarrow> (\<exists>qt errs. addAll fuel qt0 cs = Inr (qt, errs))) \<and>
         (\<forall>qt errs. addAll fuel qt0 cs = Inr (qt, errs) \<longrightarrow>
            (\<exists>r. root qt = Some r \<and> leaf_or_internal r \<and>
               (\<forall>qt' errs'. addAll fuel' qt cs' = Inr (qt', errs') \<longrightarrow>
                  (\<exists>r'. root qt' = Some r' \<and> leaf_or_internal r' \<and> stays_split r r'))))"
proof (intro conjI impI allI)
  assume "2 * nat md + 1 \<le> fuel"
  with NewQuadtree_ok [OF assms] show "\<exists>qt errs. addAll fuel qt0 cs = Inr (qt, errs)"
    by (meson addAll_returns)
next
  fix qt errs assume a: "addAll fuel qt0 cs = Inr (qt, errs)"
  have ok: "tree_ok b md mi qt"
    by (rule addAll_reach(1) [OF assms a])
  then obtain r where r: "root qt = Some r" "node_ok md mi r"
    by (rule tree_okD)
  have "\<exists>r'. root qt' = Some r' \<and> leaf_or_internal r' \<and> stays_split r r'"
    if b: "addAll fuel' qt cs' = Inr (qt', errs')" for qt' errs'
  proof -
    from addAll_outcome [OF ok, of fuel' cs'] b have "tree_ok b md mi qt'"
      by simp
    then obtain r' where r': "root qt' = Some r'" "node_ok md mi r'"
      by (rule tree_okD)
    with addAll_stays_split [OF ok b] r show ?thesis
      by (auto intro: node_ok_shape)
  qed
  with r show "\<exists>r. root qt = Some r \<and> leaf_or_internal r \<and>
      (\<forall>qt' errs'. addAll fuel' qt cs' = Inr (qt', errs') \<longrightarrow>
         (\<exists>r'. root qt' = Some r' \<and> leaf_or_internal r' \<and> stays_split r r'))"
    by (auto intro: node_ok_shape)
qed

theorem leaf_xor_internal_witness:
  "NewQuadtree five_bounds 1 1 = Inr five_new \<and>
   addAll 3 five_new five_adds = Inr (five_tree, [None, Some ErrOutsideBounds, None]) \<and>
   root five_tree = Some five_root \<and> items five_root = None \<and> leaf_or_internal five_root \<and>
   addAll 3 five_tree [(3, Point 1 1)] = Inr (five_tree', [None]) \<and>
   root five_tree' = Some five_root' \<and> items five_root' = None \<and>
   leaf_or_internal five_root' \<and> stays_split five_root five_root'"
  using leaf_xor_internal [OF five_created, of 3 five_adds 3 "[(3, Point 1 1)]"] five_trace five_trace'
  by (simp add: five_created five_tree_def five_tree'_def) (simp add: five_root_def five_root'_def five_node_def)

text \<open>
  C10, as the claim states it, fails: a child's bounds need not lie within its parent's. In
  the tree with bounds \<^verbatim>\<open>Rect{1, 1, 3 * 2^-52, 3 * 2^-52}\<close> the upper right child of
  the root contains a point that the root does not contain, because its right edge
  \<open>(1 + 2 / 2\<^sup>5\<^sup>2) + 3 / 2\<^sup>5\<^sup>3\<close> is rounded up to \<open>1 + 4 / 2\<^sup>5\<^sup>2\<close>.
\<close>

theorem child_reaches_beyond_parent:
  "NewQuadtree wide_bounds 1 1 = Inr wide_new \<and>
   addAll 3 wide_new corner_adds = Inr (wide_tree, [None, None]) \<and>
   root wide_tree = Some wide_root \<and> ur wide_root = Some wide_ur \<and>
   Contains (bounds wide_ur) wide_point \<and> \<not> Contains (bounds wide_root) wide_point"
  by (simp add: wide_created wide_trace wide_geometry) (simp add: wide_tree_def wide_root_def wide_geometry)

text \<open>
  C10, amended. In every tree reached from \<open>NewQuadtree\<close> by \<open>Add\<close> calls, every node is
  a leaf or internal, so the entries the tree holds are in the \<open>items\<close> of leaves; the
  position of every entry at or below a node is contained in the bounds of that node; and
  the bounds of the children of an internal node are the four rectangles that
  \<open>quadrants\<close> computes from the node's bounds. Consequently \<open>Query\<close> with any rectangle
  that covers the root bounds returns what \<open>Query\<close> with the root bounds returns, which
  is the payloads of all entries the tree holds.
\<close>

theorem entries_within_nodes:
  fixes b :: "('a::{linorder,plus,one,inverse}) Rect" and cs :: "('d \<times> 'a Point) list"
  assumes "NewQuadtree b md mi = Inr qt0" "addAll fuel qt0 cs = Inr (qt, errs)"
  shows "\<exists>r. root qt = Some r \<and> bounds r = b \<and> leaf_or_internal r \<and>
           list_all (\<lambda>n. quadrant_children n \<and>
                          list_all (\<lambda>e. Contains (bounds n) (position e)) (entries n)) (nodes r) \<and>
           Query qt b = Inr (map data (entries r)) \<and>
           (\<forall>q. covers q b \<longrightarrow> Query qt q = Query qt b)"
proof -
  from addAll_reach(1) [OF assms] obtain r where
    r: "root qt = Some r" "bounds r = b" "node_ok md mi r"
    by (rule tree_okD)
  have in_b: "list_all (\<lambda>e. Contains b (position e)) (entries r)"
    using entries_in_bounds [OF r(3)] r(2) by simp
  have all: "Query qt q = Inr (map data (entries r))" if "covers q b" for q
  proof -
    from in_b that have "filter (\<lambda>e. Contains q (position e)) (entries r) = entries r"
      by (auto simp: list_all_iff filter_id_conv intro: covers_Contains)
    then show ?thesis
      by (simp add: Query_entries [OF r(1,3)])
  qed
  have "covers b b"
    by (simp add: covers_def)
  from all [OF this] have here: "Query qt b = Inr (map data (entries r))" .
  have "list_all (\<lambda>n. quadrant_children n \<and>
      list_all (\<lambda>e. Contains (bounds n) (position e)) (entries n)) (nodes r)"
    using node_ok_nodes [OF r(3)]
    by (auto simp: list_all_iff intro: node_ok_quadrant_children entries_in_bounds [unfolded list_all_iff, rule_format])
  with r here all show ?thesis
    by (auto intro: node_ok_shape)
qed

theorem entries_within_nodes_witness:
  "NewQuadtree five_bounds 1 1 = Inr five_new \<and>
   addAll 3 five_new five_adds = Inr (five_tree, [None, Some ErrOutsideBounds, None]) \<and>
   root five_tree = Some five_root \<and>
   list_all (\<lambda>n. quadrant_children n \<and>
                  list_all (\<lambda>e. Contains (bounds n) (position e)) (entries n)) (nodes five_root) \<and>
   covers (Rect (F64 (- 1)) (F64 (- 1)) (F64 7) (F64 7)) five_bounds \<and>
   Query five_tree five_bounds = Inr [1, 2] \<and>
   Query five_tree (Rect (F64 (- 1)) (F64 (- 1)) (F64 7) (F64 7)) = Inr [1, 2]"
proof -
  have c: "covers (Rect (F64 (- 1)) (F64 (- 1)) (F64 7) (F64 7)) five_bounds"
    by (simp add: covers_def five_bounds_def f64_arith)
  have e: "map data (entries five_root) = [1, 2]"
    by (simp add: five_root_def five_node_def)
  from entries_within_nodes [OF five_created five_trace] c e show ?thesis
    by (simp add: five_created five_trace five_tree_def)
qed

section \<open>Where the code loses entries\<close>

text \<open>
  \<open>whichQuadrant\<close> chooses the child by comparing with the midpoint \<open>x + width / 2\<close>, and
  the child tests the position again with its own \<open>Contains\<close>, whose right edge is the
  sum \<open>(x + width / 2) + width / 2\<close> for the right children and \<open>x + width / 2\<close> for the
  left ones. In \<^verbatim>\<open>float64\<close> these sums are rounded. For the bounds
  \<^verbatim>\<open>Rect{1, 1, 2^-52, 2^-52}\<close> the midpoint \<open>1 + 2\<^sup>-\<^sup>5\<^sup>3\<close> is rounded to \<open>1\<close>: the
  point \<open>(1, 1)\<close> is sent to the upper right child, whose bounds start and end at \<open>1\<close>,
  and the child's \<open>addInternal\<close> leaves through the \<open>quadrantNone\<close> branch without storing
  the entry. \<open>Add\<close> has returned \<^verbatim>\<open>nil\<close> and counted the entry all the same.

  C9. At this rectangle and point, the point is contained in the rectangle and in none of
  its four quadrants, and the branch for \<open>quadrantNone\<close> is taken below the root.
\<close>

theorem quadrant_gap:
  "Contains ulp_bounds (Point 1 1) \<and>
   whichQuadrant ulp_bounds (Point 1 1) = quadrantUpperRight \<and>
   quadrants ulp_bounds = (Rect 1 1 half_eps half_eps, Rect 1 1 half_eps half_eps,
                           Rect 1 1 half_eps half_eps, Rect 1 1 half_eps half_eps) \<and>
   \<not> Contains (Rect 1 1 half_eps half_eps) (Point 1 1) \<and>
   whichQuadrant (Rect 1 1 half_eps half_eps) (Point 1 1) = quadrantNone \<and>
   addInternal 1 ulp_new (Node (Rect 1 1 half_eps half_eps) 1 (Some []) None None None None)
       (treeEntry (Point 1 1) (1::nat)) =
     Inr (Node (Rect 1 1 half_eps half_eps) 1 (Some []) None None None None)"
  by (simp add: ulp_geometry)

text \<open>
  C1. Both positions are contained in the bounds of the tree, both \<open>Add\<close> calls return
  \<^verbatim>\<open>nil\<close>, \<open>Size\<close> is 2, and \<open>Query\<close> with the bounds of the tree returns nothing.
\<close>

theorem full_bounds_query_loses_entries:
  "NewQuadtree ulp_bounds 1 1 = Inr ulp_new \<and>
   list_all (\<lambda>c. Contains ulp_bounds (snd c)) corner_adds \<and>
   addAll 3 ulp_new corner_adds = Inr (ulp_tree, [None, None]) \<and>
   Size ulp_tree = 2 \<and>
   Query ulp_tree ulp_bounds = Inr []"
  by (simp add: ulp_created ulp_trace ulp_query) (simp add: corner_adds_def ulp_geometry Size_def ulp_tree_def)

text \<open>
  C6. With \<open>maxDepth = 1\<close> and \<open>maxItemsPerNode = 1\<close>, two entries are inserted at the same
  position inside the bounds. The insertions return, and the tree they leave has a root
  without items and four leaves at depth 1 that are all empty: no leaf holds the entries.
\<close>

theorem same_position_entries_dropped:
  "NewQuadtree ulp_bounds 1 1 = Inr ulp_new \<and>
   corner_adds = [(1, Point 1 1), (2, Point 1 1)] \<and>
   Contains ulp_bounds (Point 1 1) \<and>
   addAll 3 ulp_new corner_adds = Inr (ulp_tree, [None, None]) \<and>
   root ulp_tree = Some ulp_root \<and>
   map (\<lambda>n. (depth n, items n)) (nodes ulp_root) =
     [(0, None), (1, Some []), (1, Some []), (1, Some []), (1, Some [])]"
  by (simp add: ulp_created ulp_trace ulp_geometry) (simp add: corner_adds_def ulp_tree_def ulp_root_def)

section \<open>The visitor's return value\<close>

text \<open>
  \<^verbatim>\<open>QueryIterative\<close>, which the tests call, is not in the source. The traversal in the
  source is \<open>queryInternal\<close>; its consumer returns a \<^verbatim>\<open>bool\<close>, and line 116 calls it
  and drops the result under the comment \<^verbatim>\<open>TODO: handle the return value and exit\<close>.

  C2. On the tree and with the closure of \<^verbatim>\<open>TestQueryIterative_stopsWhenReturnFalse\<close>,
  \<open>queryInternal\<close> calls the closure four times, twice more after it has returned
  \<^verbatim>\<open>false\<close>. The test asserts that the count is 2.
\<close>

theorem consumer_called_after_false:
  "NewQuadtree test_bounds 2 2 = Inr test_new \<and>
   addAll 5 test_new test_adds = Inr (test_tree, [None, None, None, None]) \<and>
   root test_tree = Some test_root \<and>
   fst (count_then_stop (treeEntry (Point 1 1) 0) 1) = False \<and>
   queryInternal test_root test_bounds count_then_stop 0 = Inr 4"
  by (simp add: test_created test_trace test_count) (simp add: test_tree_def count_then_stop_def)

end
